theory Spec2Isabelle
  imports Main "HOL-Library.Finite_Map" "HOL-Library.Multiset"
begin

section \<open>Data model\<close>

text \<open>
  The plugin (\<^verbatim>\<open>dns_ngenix.py\<close>) handles JSON values decoded by \<^verbatim>\<open>requests\<close>. A
  Python \<^verbatim>\<open>dict\<close> with string keys is a finite map: two of them are equal when they have
  the same keys with equal values, whatever the insertion order. The plugin compares a
  record only with a dictionary whose values are strings, for which HOL equality is
  Python's \<^verbatim>\<open>==\<close>. JSON floats are left out: no function of the plugin looks at a
  number.
\<close>

datatype json =
    JNull
  | JBool bool
  | JInt int
  | JStr string
  | JArr "json list"
  | JObj "(string, json) fmap"

text \<open>A DNS record and a DNS zone of the provider are dictionaries.\<close>

type_synonym dns_record = "(string, json) fmap"
type_synonym dns_zone = "(string, json) fmap"

text \<open>
  Exceptions are values. The text of a \<^verbatim>\<open>PluginError\<close> is an f-string: it is kept as
  the list of its pieces, a literal or interpolated string (\<open>Lit\<close>), an interpolated
  integer (\<open>Num\<close>), an interpolated JSON value (\<open>Val\<close>), the line feed (\<open>NL\<close>) and the
  interpolated \<^verbatim>\<open>str(e)\<close> of a caught exception (\<open>Cause\<close>).
  \<open>UnboundLocalError v\<close> is the read of the local variable \<open>v\<close> before any assignment,
  \<open>AttributeError ty a\<close> the access to attribute \<open>a\<close> on an object of type \<open>ty\<close>,
  \<open>EnvError s\<close> an exception raised by the environment (file system, \<^verbatim>\<open>subprocess\<close>,
  \<^verbatim>\<open>re\<close>) whose text is \<open>s\<close>.
\<close>

datatype error =
    PluginError "fragment list"
  | UnboundLocalError string
  | AttributeError string string
  | TypeError string
  | EnvError string
and fragment =
    Lit string
  | Num nat
  | Val json
  | NL
  | Cause error

text \<open>
  What \<^verbatim>\<open>requests.get\<close> and \<^verbatim>\<open>requests.patch\<close> give back: the call raises
  (\<open>Unreachable\<close>), or there is a response with its status code, its text and the
  payload read from it, \<^verbatim>\<open>res.json()[key]\<close>, which is \<open>None\<close> when the body is not
  JSON or has no such key.
\<close>

datatype 'a http_result = Unreachable | Response nat string "'a option"

record datetime =
  year :: nat
  month :: nat
  day :: nat
  hour :: nat
  minute :: nat
  second :: nat
  microsecond :: nat

text \<open>
  The effects of a workflow are recorded as a trace of events, in the order in which
  they happen: the three requests to the provider, the backup file written (its path,
  the zone id of its first line and the record set serialised after it), the
  \<^verbatim>\<open>dig\<close> query and the sleep.
\<close>

datatype event =
    GetZoneList
  | GetZone json
  | PatchZone json "dns_record list"
  | WriteFile string json "dns_record list"
  | Dig string
  | Sleep nat

text \<open>
  The environment of one invocation: the credentials' customer id, the provider's answer
  to the \<open>k\<close>-th zone-list request, to the request for a zone and to the replacement of
  a zone's records, the clock, the file system (\<open>Some msg\<close> when writing the file
  fails), the output lines of the \<open>k\<close>-th \<^verbatim>\<open>dig\<close> run, and \<^verbatim>\<open>re.sub\<close> of the standard
  library (pattern, replacement, subject).
\<close>

record env =
  customer_id :: string
  zone_list_res :: "nat \<Rightarrow> dns_zone list http_result"
  zone_res :: "json \<Rightarrow> dns_record list http_result"
  patch_res :: "json \<Rightarrow> dns_record list \<Rightarrow> dns_record list http_result"
  now :: datetime
  write_file :: "string \<Rightarrow> string option"
  dig :: "string \<Rightarrow> nat \<Rightarrow> error + string list"
  re_sub :: "string \<Rightarrow> string \<Rightarrow> string \<Rightarrow> error + string"

type_synonym 'a io = "event list \<Rightarrow> (error + 'a) \<times> event list"

section \<open>Zone resolution\<close>

text \<open>
  Attempt \<open>i\<close> of the loop searches the domain for the pattern
  \<^verbatim>\<open>(.*)\<close> prefixed \<open>i\<close> times with \<^verbatim>\<open>.*?\.\<close> and takes group 1.
  \<open>re_match i s\<close> matches that pattern at the start of \<open>s\<close> as the backtracking
  matcher does: the lazy \<^verbatim>\<open>.*?\<close> first tries to stop, and takes one more character
  (any but a line feed) when the rest does not match; the last group is greedy and
  takes everything up to a line feed. \<open>re_search\<close> tries every start position from
  the left.
\<close>

definition LF :: char where
  "LF = CHR 0x0A"

fun re_match :: "nat \<Rightarrow> string \<Rightarrow> string option" where
  "re_match 0 s = Some (takeWhile (\<lambda>c. c \<noteq> LF) s)"
| "re_match (Suc i) [] = None"
| "re_match (Suc i) (c # cs) =
     (if c = CHR ''.'' then
        (case re_match i cs of
           Some g \<Rightarrow> Some g
         | None \<Rightarrow> re_match (Suc i) cs)
      else if c = LF then None
      else re_match (Suc i) cs)"

fun re_search :: "nat \<Rightarrow> string \<Rightarrow> string option" where
  "re_search i [] = re_match i []"
| "re_search i (c # cs) =
     (case re_match i (c # cs) of
        Some g \<Rightarrow> Some g
      | None \<Rightarrow> re_search i cs)"

definition count_zone_list :: "event list \<Rightarrow> nat" where
  "count_zone_list t = length (filter (\<lambda>e. e = GetZoneList) t)"

text \<open>
  The second \<^verbatim>\<open>try\<close> block of \<^verbatim>\<open>_get_dns_zone_id\<close>: the comprehension reads
  \<^verbatim>\<open>dns_zone['name']\<close> of every zone (a zone without the key raises), the first
  zone of that name is taken (none raises) and its \<^verbatim>\<open>['id']\<close> is read (a zone
  without it raises). \<open>None\<close> stands for the exception.
\<close>

definition find_dns_zone_id :: "dns_zone list \<Rightarrow> string \<Rightarrow> json option" where
  "find_dns_zone_id dns_zones domain =
     (if \<exists>dns_zone \<in> set dns_zones. fmlookup dns_zone ''name'' = None then None
      else
        (case filter (\<lambda>dns_zone. fmlookup dns_zone ''name'' = Some (JStr domain)) dns_zones of
           [] \<Rightarrow> None
         | dns_zone_info # _ \<Rightarrow> fmlookup dns_zone_info ''id''))"

definition u_get_dns_zone_id :: "env \<Rightarrow> string \<Rightarrow> json io" where
  "u_get_dns_zone_id env domain t =
     (case zone_list_res env (count_zone_list t) of
        Unreachable \<Rightarrow> (Inl (UnboundLocalError ''dns_zones_res''), t @ [GetZoneList])
      | Response status_code text payload \<Rightarrow>
          (case payload of
             None \<Rightarrow>
               (Inl (PluginError
                  [Lit ''Error occurred while trying to get a list of dns zones for customer '',
                   Lit (customer_id env), Lit ''.'', NL,
                   Lit ''Error status code: '', Num status_code, Lit ''.'', NL,
                   Lit ''Error text: '', Lit text, Lit ''.'', NL]),
                t @ [GetZoneList])
           | Some dns_zones \<Rightarrow>
               (case find_dns_zone_id dns_zones domain of
                  None \<Rightarrow>
                    (Inl (PluginError
                       [Lit ''Error occurred while trying to get dns zone id for domain '',
                        Lit domain, Lit ''.'', NL]),
                     t @ [GetZoneList])
                | Some dns_zone_id \<Rightarrow> (Inr dns_zone_id, t @ [GetZoneList]))))"

text \<open>
  One pass of the body of \<^verbatim>\<open>for i in range(4)\<close>: \<^verbatim>\<open>re.search\<close> gives \<^verbatim>\<open>None\<close> when
  the pattern does not match, and \<^verbatim>\<open>.group\<close> on it raises.
\<close>

definition zone_attempt :: "env \<Rightarrow> string \<Rightarrow> nat \<Rightarrow> (string \<times> json) io" where
  "zone_attempt env domain i t =
     (case re_search i domain of
        None \<Rightarrow> (Inl (AttributeError ''NoneType'' ''group''), t)
      | Some domain_zone \<Rightarrow>
          (case u_get_dns_zone_id env domain_zone t of
             (Inl e, t') \<Rightarrow> (Inl e, t')
           | (Inr dns_zone_id, t') \<Rightarrow> (Inr (domain_zone, dns_zone_id), t')))"

text \<open>
  The loop from pass \<open>i\<close> on. A pass that raises is followed by the next one, except
  the fourth (\<open>i = 3\<close>), whose handler raises \<open>on_fail e\<close>. The range ends at 4; a
  loop that ended without \<^verbatim>\<open>break\<close> would leave \<^verbatim>\<open>dns_zone_id\<close> unassigned.
\<close>

function zone_loop :: "env \<Rightarrow> (error \<Rightarrow> error) \<Rightarrow> string \<Rightarrow> nat \<Rightarrow> (string \<times> json) io" where
  "zone_loop env on_fail domain i t =
     (if 4 \<le> i then (Inl (UnboundLocalError ''dns_zone_id''), t)
      else
        (case zone_attempt env domain i t of
           (Inr r, t') \<Rightarrow> (Inr r, t')
         | (Inl e, t') \<Rightarrow>
             (if i = 3 then (Inl (on_fail e), t')
              else zone_loop env on_fail domain (Suc i) t')))"
  by pat_completeness auto
termination
  by (relation "measure (\<lambda>(env, on_fail, domain, i, t). 4 - i)") auto

definition add_zone_error :: "error \<Rightarrow> error" where
  "add_zone_error e =
     PluginError [Lit ''Error occurred while trying to get domain zone name.'', NL]"

definition delete_zone_error :: "error \<Rightarrow> error" where
  "delete_zone_error e =
     PluginError [Lit ''Error occurred while trying to get domain zone name and id.'', NL,
                  Lit ''Error text: '', Cause e, Lit ''.'', NL]"

section \<open>Fetching and replacing the record set\<close>

definition u_get_dns_zone_records :: "env \<Rightarrow> json \<Rightarrow> dns_record list io" where
  "u_get_dns_zone_records env dns_zone_id t =
     (case zone_res env dns_zone_id of
        Unreachable \<Rightarrow> (Inl (UnboundLocalError ''dns_zone_res''), t @ [GetZone dns_zone_id])
      | Response status_code text payload \<Rightarrow>
          (case payload of
             None \<Rightarrow>
               (Inl (PluginError
                  [Lit ''Error occurred while trying to get dns zone '', Val dns_zone_id,
                   Lit ''.'', NL,
                   Lit ''Error status code: '', Num status_code, Lit ''.'', NL,
                   Lit ''Error text: '', Lit text, Lit ''.'', NL]),
                t @ [GetZone dns_zone_id])
           | Some dns_zone_records \<Rightarrow> (Inr dns_zone_records, t @ [GetZone dns_zone_id])))"

text \<open>
  The record dictionaries are objects: \<^verbatim>\<open>_update_dns_zone_records\<close> changes them in
  place, and \<^verbatim>\<open>delete_txt_record\<close> hands it a new list of the very dictionaries it
  fetched. The heap is the list of the dictionaries allocated so far, a reference is
  an index into it, and a Python list of records is a list of references. Values
  nested in a record belong to that record alone. Every reference the model makes is
  below the length of the heap.
\<close>

type_synonym heap = "dns_record list"

definition deref :: "heap \<Rightarrow> nat \<Rightarrow> dns_record" where
  "deref h a = h ! a"

definition deepcopy :: "heap \<Rightarrow> nat list \<Rightarrow> heap \<times> nat list" where
  "deepcopy h refs = (h @ map (deref h) refs, [length h..<length h + length refs])"

definition txt_record :: "string \<Rightarrow> string \<Rightarrow> dns_record" where
  "txt_record record_name record_data =
     fmap_of_list
       [(''data'', JStr record_data), (''name'', JStr record_name), (''type'', JStr ''TXT'')]"

definition u_add_txt_record :: "string \<Rightarrow> string \<Rightarrow> heap \<Rightarrow> nat list \<Rightarrow> heap \<times> nat list" where
  "u_add_txt_record record_name record_data h dns_zone_records =
     (case deepcopy h dns_zone_records of
        (h1, new_dns_zone_records) \<Rightarrow>
          (h1 @ [txt_record record_name record_data], new_dns_zone_records @ [length h1]))"

text \<open>
  \<^verbatim>\<open>_delete_txt_record\<close> makes a deep copy and then overwrites the variable with a
  comprehension over the list it was given: the result holds the given dictionaries.
\<close>

definition u_delete_txt_record :: "string \<Rightarrow> string \<Rightarrow> heap \<Rightarrow> nat list \<Rightarrow> heap \<times> nat list" where
  "u_delete_txt_record record_name record_data h dns_zone_records =
     (case deepcopy h dns_zone_records of
        (h1, new_dns_zone_records) \<Rightarrow>
          (h1, filter (\<lambda>record. deref h1 record \<noteq> txt_record record_name record_data)
                 dns_zone_records))"

definition py_type_name :: "json \<Rightarrow> string" where
  "py_type_name v =
     (case v of
        JNull \<Rightarrow> ''NoneType''
      | JBool b \<Rightarrow> ''bool''
      | JInt i \<Rightarrow> ''int''
      | JStr s \<Rightarrow> ''str''
      | JArr xs \<Rightarrow> ''list''
      | JObj d \<Rightarrow> ''dict'')"

text \<open>\<^verbatim>\<open>record[ref].pop('link', None)\<close>: only a dictionary has a two-argument \<^verbatim>\<open>pop\<close>.\<close>

definition pop_link :: "json \<Rightarrow> error + json" where
  "pop_link v =
     (case v of
        JObj d \<Rightarrow> Inr (JObj (fmdrop ''link'' d))
      | JArr xs \<Rightarrow> Inl (TypeError ''pop expected at most 1 argument, got 2'')
      | _ \<Rightarrow> Inl (AttributeError (py_type_name v) ''pop''))"

text \<open>The body of the loop of \<^verbatim>\<open>_update_dns_zone_records\<close> on one record.\<close>

definition strip_record :: "dns_record \<Rightarrow> error + dns_record" where
  "strip_record record =
     (case fmlookup record ''configRef'' of
        Some v \<Rightarrow>
          (case pop_link v of
             Inl e \<Rightarrow> Inl e
           | Inr v' \<Rightarrow> Inr (fmupd ''configRef'' v' record))
      | None \<Rightarrow>
          (case fmlookup record ''targetGroupRef'' of
             Some v \<Rightarrow>
               (case pop_link v of
                  Inl e \<Rightarrow> Inl e
                | Inr v' \<Rightarrow> Inr (fmupd ''targetGroupRef'' v' record))
           | None \<Rightarrow> Inr record))"

fun strip_links :: "heap \<Rightarrow> nat list \<Rightarrow> error + heap" where
  "strip_links h [] = Inr h"
| "strip_links h (a # as) =
     (case strip_record (deref h a) of
        Inl e \<Rightarrow> Inl e
      | Inr record \<Rightarrow> strip_links (h[a := record]) as)"

definition u_update_dns_zone_records ::
  "env \<Rightarrow> json \<Rightarrow> heap \<Rightarrow> nat list \<Rightarrow> (dns_record list \<times> heap) io" where
  "u_update_dns_zone_records env dns_zone_id h new_dns_zone_records t =
     (case strip_links h new_dns_zone_records of
        Inl e \<Rightarrow> (Inl e, t)
      | Inr h' \<Rightarrow>
          (case patch_res env dns_zone_id (map (deref h') new_dns_zone_records) of
             Unreachable \<Rightarrow>
               (Inl (UnboundLocalError ''update_dns_zone_records_res''),
                t @ [PatchZone dns_zone_id (map (deref h') new_dns_zone_records)])
           | Response status_code text payload \<Rightarrow>
               (case payload of
                  None \<Rightarrow>
                    (Inl (PluginError
                       [Lit ''Error occurred while trying to update records in dns zone '',
                        Val dns_zone_id, Lit ''.'', NL,
                        Lit ''Error status code: '', Num status_code, Lit ''.'', NL,
                        Lit ''Error text: '', Lit text, Lit ''.'', NL]),
                     t @ [PatchZone dns_zone_id (map (deref h') new_dns_zone_records)])
                | Some updated_dns_zone_records \<Rightarrow>
                    (Inr (updated_dns_zone_records, h'),
                     t @ [PatchZone dns_zone_id (map (deref h') new_dns_zone_records)]))))"

section \<open>Backup writer\<close>

fun show_nat :: "nat \<Rightarrow> string" where
  "show_nat n =
     (if n < 10 then [''0123456789'' ! n]
      else show_nat (n div 10) @ [''0123456789'' ! (n mod 10)])"

definition pad2 :: "nat \<Rightarrow> string" where
  "pad2 n = (if n < 10 then CHR ''0'' # show_nat n else show_nat n)"

text \<open>
  \<^verbatim>\<open>strftime('%Y-%m-%d_%H-%M-%S')\<close>: the year in decimal (four digits from the year 1000
  on), the other fields in two digits.
\<close>

definition strftime :: "datetime \<Rightarrow> string" where
  "strftime d =
     show_nat (year d) @ ''-'' @ pad2 (month d) @ ''-'' @ pad2 (day d) @ ''_''
       @ pad2 (hour d) @ ''-'' @ pad2 (minute d) @ ''-'' @ pad2 (second d)"

text \<open>\<^verbatim>\<open>os.path.join\<close> of two components on a POSIX system.\<close>

definition path_join :: "string \<Rightarrow> string \<Rightarrow> string" where
  "path_join a b =
     (if b \<noteq> [] \<and> hd b = CHR ''/'' then b
      else if a = [] \<or> last a = CHR ''/'' then a @ b
      else a @ ''/'' @ b)"

definition backup_file_name :: "string \<Rightarrow> string \<Rightarrow> string option \<Rightarrow> string" where
  "backup_file_name domain current_time tag =
     (case tag of
        None \<Rightarrow> domain @ ''.'' @ current_time @ ''.json''
      | Some tg \<Rightarrow>
          (if tg \<noteq> [] then domain @ ''.'' @ current_time @ ''.'' @ tg @ ''.json''
           else domain @ ''.'' @ current_time @ ''.json''))"

definition u_create_backup_file ::
  "env \<Rightarrow> json \<Rightarrow> string \<Rightarrow> dns_record list \<Rightarrow> string option \<Rightarrow> string io" where
  "u_create_backup_file env dns_zone_id domain dns_zone_records tag t =
     (let current_time = strftime (now env);
          file_name = backup_file_name domain current_time tag;
          file_path = path_join (path_join (path_join ''/'' ''tmp'') ''ngenix-dns-zone'') file_name
      in case write_file env file_path of
           Some msg \<Rightarrow> (Inl (EnvError msg), t)
         | None \<Rightarrow> (Inr file_path, t @ [WriteFile file_path dns_zone_id dns_zone_records]))"

section \<open>Propagation waiter\<close>

definition count_dig :: "event list \<Rightarrow> nat" where
  "count_dig t = length (filter (\<lambda>e. case e of Dig n \<Rightarrow> True | _ \<Rightarrow> False) t)"

text \<open>
  One run of \<^verbatim>\<open>dig\<close> and the comprehension over its output lines, each without its
  first and last character (\<^verbatim>\<open>txt_record[1:-1]\<close>).
\<close>

definition query_txt :: "env \<Rightarrow> string \<Rightarrow> string list io" where
  "query_txt env record_name t =
     (case dig env record_name (count_dig t) of
        Inl e \<Rightarrow> (Inl e, t @ [Dig record_name])
      | Inr lines \<Rightarrow> (Inr (map (\<lambda>txt_record. butlast (tl txt_record)) lines), t @ [Dig record_name]))"

definition propagation_timeout :: "string \<Rightarrow> error" where
  "propagation_timeout record_name =
     PluginError [Lit ''Maximum amount of retries reached while trying to get new TXT record '',
                  Lit record_name, Lit ''.'', NL]"

text \<open>
  The \<^verbatim>\<open>while\<close> loop, from its test on. The counter is a Python integer and the loop
  leaves only by the test or by \<open>counter = 0\<close>, so the function is partial: \<open>None\<close> is
  a loop that does not return.
\<close>

partial_function (option) wait_loop ::
  "env \<Rightarrow> string \<Rightarrow> string \<Rightarrow> int \<Rightarrow> string list \<Rightarrow> event list
     \<Rightarrow> ((error + unit) \<times> event list) option" where
  "wait_loop env record_name record_data counter txt_records t =
     (if record_data \<in> set txt_records then Some (Inr (), t)
      else
        (case query_txt env record_name t of
           (Inl e, t') \<Rightarrow> Some (Inl e, t')
         | (Inr txt_records', t') \<Rightarrow>
             (if counter - 1 = 0 then Some (Inl (propagation_timeout record_name), t')
              else wait_loop env record_name record_data (counter - 1) txt_records'
                     (t' @ [Sleep 60]))))"

definition u_wait_for_record_propagation ::
  "env \<Rightarrow> string \<Rightarrow> string \<Rightarrow> event list \<Rightarrow> ((error + unit) \<times> event list) option" where
  "u_wait_for_record_propagation env record_name record_data t =
     (case query_txt env record_name t of
        (Inl e, t') \<Rightarrow> Some (Inl e, t')
      | (Inr txt_records, t') \<Rightarrow> wait_loop env record_name record_data 15 txt_records t')"

section \<open>The publish and remove workflows\<close>

definition bind_io :: "'a io \<Rightarrow> ('a \<Rightarrow> 'b io) \<Rightarrow> 'b io" where
  "bind_io m f t = (case m t of (Inl e, t') \<Rightarrow> (Inl e, t') | (Inr x, t') \<Rightarrow> f x t')"

definition lift_io :: "error + 'a \<Rightarrow> 'a io" where
  "lift_io r t = (r, t)"

text \<open>The pattern \<^verbatim>\<open>rf'\.{domain_zone}$'\<close>.\<close>

definition zone_suffix_pattern :: "string \<Rightarrow> string" where
  "zone_suffix_pattern domain_zone = [CHR 0x5C, CHR ''.''] @ domain_zone @ ''$''"





definition delete_txt_record_try :: "env \<Rightarrow> string \<Rightarrow> string \<Rightarrow> string \<Rightarrow> unit io" where
  "delete_txt_record_try env domain record_name record_content =
     bind_io (zone_loop env delete_zone_error domain 0) (\<lambda>(domain_zone, dns_zone_id).
     bind_io (u_get_dns_zone_records env dns_zone_id) (\<lambda>fetched.
     bind_io (lift_io (re_sub env (zone_suffix_pattern domain_zone) [] record_name))
       (\<lambda>new_record_name.
     (case u_delete_txt_record new_record_name record_content fetched [0..<length fetched] of
        (h, new_dns_zone_records) \<Rightarrow>
     bind_io (u_update_dns_zone_records env dns_zone_id h new_dns_zone_records)
       (\<lambda>(updated, h').
     bind_io (u_create_backup_file env dns_zone_id domain_zone
                (map (deref h') [0..<length fetched]) (Some ''after''))
       (\<lambda>file_path. lift_io (Inr ())))))))"

definition delete_error :: "error \<Rightarrow> error" where
  "delete_error e =
     PluginError [Lit ''Error occurred while trying to delete TXT record.'', NL,
                  Lit ''Error text: '', Cause e, Lit ''.'', NL]"

definition delete_txt_record :: "env \<Rightarrow> string \<Rightarrow> string \<Rightarrow> string \<Rightarrow> unit io" where
  "delete_txt_record env domain record_name record_content t =
     (case delete_txt_record_try env domain record_name record_content t of
        (Inl e, t') \<Rightarrow> (Inl (delete_error e), t')
      | (Inr u, t') \<Rightarrow> (Inr (), t'))"

section \<open>The specification's notions\<close>

text \<open>
  Stripping the leftmost label of a domain takes away everything up to and including
  its first dot; a domain without a dot has no label to strip.
\<close>

definition strip_label :: "string \<Rightarrow> string option" where
  "strip_label d =
     (if CHR ''.'' \<in> set d then Some (tl (dropWhile (\<lambda>c. c \<noteq> CHR ''.'') d)) else None)"

fun strip_labels :: "nat \<Rightarrow> string \<Rightarrow> string option" where
  "strip_labels 0 d = Some d"
| "strip_labels (Suc k) d =
     (case strip_label d of None \<Rightarrow> None | Some d' \<Rightarrow> strip_labels k d')"

text \<open>The names of the zones of a zone list.\<close>

definition zone_names :: "dns_zone list \<Rightarrow> string set" where
  "zone_names dns_zones = {s. \<exists>z \<in> set dns_zones. fmlookup z ''name'' = Some (JStr s)}"

text \<open>The provider answers every zone-list request with the same list of zones.\<close>

definition uniform_zone_list :: "env \<Rightarrow> dns_zone list \<Rightarrow> bool" where
  "uniform_zone_list env dns_zones =
     (\<forall>k. \<exists>status_code text. zone_list_res env k = Response status_code text (Some dns_zones))"

text \<open>Every zone has a name and an id (section 3 of the specification).\<close>

definition well_formed_zones :: "dns_zone list \<Rightarrow> bool" where
  "well_formed_zones dns_zones =
     (\<forall>z \<in> set dns_zones. fmlookup z ''name'' \<noteq> None \<and> fmlookup z ''id'' \<noteq> None)"

text \<open>The error of \<^verbatim>\<open>_get_dns_zone_id\<close> when no zone has the name.\<close>

definition zone_lookup_error :: "string \<Rightarrow> error" where
  "zone_lookup_error domain =
     PluginError [Lit ''Error occurred while trying to get dns zone id for domain '',
                  Lit domain, Lit ''.'', NL]"

text \<open>What pass \<open>i\<close> of the loop gives under a uniform zone list, for a domain without line feed.\<close>

definition pass_result :: "dns_zone list \<Rightarrow> string \<Rightarrow> nat \<Rightarrow> error + string \<times> json" where
  "pass_result dns_zones domain i =
     (case strip_labels i domain of
        None \<Rightarrow> Inl (AttributeError ''NoneType'' ''group'')
      | Some s \<Rightarrow>
          (case find_dns_zone_id dns_zones s of
             None \<Rightarrow> Inl (zone_lookup_error s)
           | Some zid \<Rightarrow> Inr (s, zid)))"



section \<open>The substitution of the standard library on plain patterns\<close>

text \<open>
  \<^verbatim>\<open>re.sub(pattern, '', subject)\<close> for a pattern without repetition, group, class or
  alternative: a sequence of escaped characters, of \<^verbatim>\<open>.\<close> (any character but a line
  feed), of \<^verbatim>\<open>$\<close> (the end of the subject, or the place before a line feed that ends
  it) and of characters that stand for themselves. This is what the pattern
  \<^verbatim>\<open>rf'\.{domain_zone}$'\<close> is for a zone name of letters, digits, hyphens and dots.
  \<open>atoms\<close> reads the pattern (\<open>None\<close> when it holds anything else), \<open>matches_at\<close> gives
  the number of characters that a match at the start of the subject takes, and
  \<open>delete_matches\<close> scans the subject from the left, drops each match that is not
  empty and goes on behind it (\<open>k\<close> characters of a match are still to drop).
\<close>

datatype atom = Exactly char | AnyChar | AtEnd

definition alphanumeric :: "char \<Rightarrow> bool" where
  "alphanumeric c =
     (c \<in> set ''abcdefghijklmnopqrstuvwxyzABCDEFGHIJKLMNOPQRSTUVWXYZ0123456789'')"

fun atoms :: "string \<Rightarrow> atom list option" where
  "atoms [] = Some []"
| "atoms [c] =
     (if c = CHR 0x5C \<or> c \<in> set ''^*+?{}[]()|'' then None
      else if c = CHR ''.'' then Some [AnyChar]
      else if c = CHR ''$'' then Some [AtEnd]
      else Some [Exactly c])"
| "atoms (c # d # cs) =
     (if c = CHR 0x5C then
        (if alphanumeric d then None else map_option ((#) (Exactly d)) (atoms cs))
      else if c \<in> set ''^*+?{}[]()|'' then None
      else if c = CHR ''.'' then map_option ((#) AnyChar) (atoms (d # cs))
      else if c = CHR ''$'' then map_option ((#) AtEnd) (atoms (d # cs))
      else map_option ((#) (Exactly c)) (atoms (d # cs)))"

fun matches_at :: "atom list \<Rightarrow> string \<Rightarrow> nat option" where
  "matches_at [] s = Some 0"
| "matches_at (AtEnd # as) s = (if s = [] \<or> s = [LF] then matches_at as s else None)"
| "matches_at (Exactly c # as) [] = None"
| "matches_at (AnyChar # as) [] = None"
| "matches_at (Exactly c # as) (x # xs) =
     (if x = c then map_option Suc (matches_at as xs) else None)"
| "matches_at (AnyChar # as) (x # xs) =
     (if x \<noteq> LF then map_option Suc (matches_at as xs) else None)"

fun delete_matches :: "atom list \<Rightarrow> nat \<Rightarrow> string \<Rightarrow> string" where
  "delete_matches as k [] = []"
| "delete_matches as (Suc k) (x # xs) = delete_matches as k xs"
| "delete_matches as 0 (x # xs) =
     (case matches_at as (x # xs) of
        None \<Rightarrow> x # delete_matches as 0 xs
      | Some 0 \<Rightarrow> x # delete_matches as 0 xs
      | Some (Suc n) \<Rightarrow> delete_matches as n xs)"

text \<open>
  The \<^verbatim>\<open>re.sub\<close> of the environments below. They make no statement on a pattern that
  \<open>atoms\<close> does not read or on a replacement that is not empty, which no run below
  asks for, and answer it with an exception.
\<close>

definition plain_re_sub :: "string \<Rightarrow> string \<Rightarrow> string \<Rightarrow> error + string" where
  "plain_re_sub pattern repl subject =
     (case atoms pattern of
        None \<Rightarrow> Inl (EnvError ''pattern outside the plain patterns'')
      | Some as \<Rightarrow>
          (if repl = [] then Inr (delete_matches as 0 subject)
           else Inl (EnvError ''replacement outside the plain patterns'')))"

section \<open>A concrete environment\<close>

text \<open>
  The provider has the zones \<^verbatim>\<open>example.com\<close> and \<^verbatim>\<open>example.org\<close>; the zone holds an
  address record and a record that refers to a configuration; the resolver shows the
  challenge value from its third answer on.
\<close>

definition example_zones :: "dns_zone list" where
  "example_zones =
     [fmap_of_list [(''id'', JInt 7), (''name'', JStr ''example.com'')],
      fmap_of_list [(''id'', JInt 9), (''name'', JStr ''example.org'')]]"

definition example_records :: "dns_record list" where
  "example_records =
     [fmap_of_list [(''name'', JStr ''www''), (''type'', JStr ''A''), (''data'', JStr ''192.0.2.1'')],
      fmap_of_list [(''name'', JStr ''cdn''), (''type'', JStr ''CNAME''),
                    (''configRef'', JObj (fmap_of_list [(''id'', JInt 5), (''link'', JStr ''/config/5'')]))]]"

definition example_now :: datetime where
  "example_now =
     \<lparr>year = 2024, month = 3, day = 9, hour = 7, minute = 5, second = 1, microsecond = 123456\<rparr>"

definition example_env :: env where
  "example_env =
     \<lparr>customer_id = ''42'',
      zone_list_res = (\<lambda>k. Response 200 ''OK'' (Some example_zones)),
      zone_res = (\<lambda>dns_zone_id. Response 200 ''OK'' (Some example_records)),
      patch_res = (\<lambda>dns_zone_id body. Response 200 ''OK'' (Some body)),
      now = example_now,
      write_file = (\<lambda>file_path. None),
      dig = (\<lambda>record_name k. Inr (if k < 2 then [] else [CHR 0x22 # ''abc123'' @ [CHR 0x22]])),
      re_sub = plain_re_sub\<rparr>"

section \<open>Notions for the record-set helpers\<close>

text \<open>Every reference of the list is an object of the heap.\<close>

definition valid_refs :: "heap \<Rightarrow> nat list \<Rightarrow> bool" where
  "valid_refs h refs = (\<forall>a \<in> set refs. a < length h)"

text \<open>\<^verbatim>\<open>_add_txt_record\<close> and then \<^verbatim>\<open>_delete_txt_record\<close> on its result, read as records.\<close>

definition add_then_remove :: "string \<Rightarrow> string \<Rightarrow> heap \<Rightarrow> nat list \<Rightarrow> dns_record list" where
  "add_then_remove record_name record_data h refs =
     (case u_add_txt_record record_name record_data h refs of
        (h1, refs1) \<Rightarrow>
          (case u_delete_txt_record record_name record_data h1 refs1 of
             (h2, refs2) \<Rightarrow> map (deref h2) refs2))"

definition extra_field_record :: dns_record where
  "extra_field_record =
     fmap_of_list [(''data'', JStr ''abc123''), (''name'', JStr ''_acme-challenge''),
                   (''type'', JStr ''TXT''), (''ttl'', JInt 300)]"

text \<open>A record that refers both to a configuration and to a target group.\<close>

definition both_refs_record :: dns_record where
  "both_refs_record =
     fmap_of_list
       [(''name'', JStr ''cdn''),
        (''configRef'', JObj (fmap_of_list [(''id'', JInt 5), (''link'', JStr ''/config/5'')])),
        (''targetGroupRef'', JObj (fmap_of_list [(''id'', JInt 2), (''link'', JStr ''/target/2'')]))]"

section \<open>Notions for the workflows\<close>

text \<open>The directory of the backup files, \<^verbatim>\<open>os.path.join(os.sep, 'tmp', 'ngenix-dns-zone')\<close>.\<close>

definition backup_dir :: string where
  "backup_dir = path_join (path_join ''/'' ''tmp'') ''ngenix-dns-zone''"

text \<open>The record sets of the backup files written and of the replacements submitted, in order.\<close>

definition written_snapshots :: "event list \<Rightarrow> dns_record list list" where
  "written_snapshots t = concat (map (\<lambda>e. case e of WriteFile p z rs \<Rightarrow> [rs] | _ \<Rightarrow> []) t)"

definition submitted_bodies :: "event list \<Rightarrow> dns_record list list" where
  "submitted_bodies t = concat (map (\<lambda>e. case e of PatchZone z rs \<Rightarrow> [rs] | _ \<Rightarrow> []) t)"

text \<open>
  The zone of the concrete environment after a publication: it holds the TXT record
  too. The second environment answers the request for the zone with these records.
\<close>

definition published_records :: "dns_record list" where
  "published_records = example_records @ [txt_record ''_acme-challenge.www'' ''abc123'']"

definition remove_env :: env where
  "remove_env = example_env\<lparr>zone_res := (\<lambda>dns_zone_id. Response 200 ''OK'' (Some published_records))\<rparr>"

text \<open>The published records with the \<^verbatim>\<open>link\<close> of the configuration reference taken away.\<close>

definition stripped_published :: "dns_record list" where
  "stripped_published =
     [fmap_of_list [(''name'', JStr ''www''), (''type'', JStr ''A''), (''data'', JStr ''192.0.2.1'')],
      fmap_of_list [(''name'', JStr ''cdn''), (''type'', JStr ''CNAME''),
                    (''configRef'', JObj (fmap_of_list [(''id'', JInt 5)]))],
      txt_record ''_acme-challenge.www'' ''abc123'']"

text \<open>
  An environment in which the provider cannot be reached for the first zone-list
  request and answers from the second on.
\<close>

definition flaky_env :: env where
  "flaky_env =
     remove_env\<lparr>zone_list_res :=
       (\<lambda>k. if k = 0 then Unreachable else Response 200 ''OK'' (Some example_zones))\<rparr>"

text \<open>An environment in which the resolver shows the challenge value from its 16th answer on.\<close>

definition late_env :: env where
  "late_env =
     example_env\<lparr>dig :=
       (\<lambda>record_name k. Inr (if k < 15 then [] else [CHR 0x22 # ''abc123'' @ [CHR 0x22]]))\<rparr>"

section \<open>Notions for the propagation waiter\<close>

declare wait_loop.simps [code]

text \<open>
  The \<open>k\<close>-th run of \<^verbatim>\<open>dig\<close> succeeds and one of its lines, without its first and last
  character, is the expected value; or it succeeds and none is.
\<close>

definition answer_has :: "env \<Rightarrow> string \<Rightarrow> string \<Rightarrow> nat \<Rightarrow> bool" where
  "answer_has env record_name record_data k =
     (case dig env record_name k of
        Inl e \<Rightarrow> False
      | Inr lines \<Rightarrow> record_data \<in> set (map (\<lambda>txt_record. butlast (tl txt_record)) lines))"

definition answer_lacks :: "env \<Rightarrow> string \<Rightarrow> string \<Rightarrow> nat \<Rightarrow> bool" where
  "answer_lacks env record_name record_data k =
     (case dig env record_name k of
        Inl e \<Rightarrow> False
      | Inr lines \<Rightarrow> record_data \<notin> set (map (\<lambda>txt_record. butlast (tl txt_record)) lines))"

text \<open>
  The loop of \<^verbatim>\<open>_wait_for_record_propagation\<close> when the counter is positive, by recursion
  on the number \<open>n\<close> of further passes that the counter allows after the next one
  (the counter is \<open>n + 1\<close>).
\<close>

fun poll :: "env \<Rightarrow> string \<Rightarrow> string \<Rightarrow> nat \<Rightarrow> string list \<Rightarrow> unit io" where
  "poll env record_name record_data n txt_records t =
     (if record_data \<in> set txt_records then (Inr (), t)
      else
        (case query_txt env record_name t of
           (Inl e, t') \<Rightarrow> (Inl e, t')
         | (Inr txt_records', t') \<Rightarrow>
             (case n of
                0 \<Rightarrow> (Inl (propagation_timeout record_name), t')
              | Suc m \<Rightarrow> poll env record_name record_data m txt_records' (t' @ [Sleep 60]))))"

section \<open>Properties of zone resolution\<close>

lemma strip_label_Nil: "strip_label [] = None"
  by (simp add: strip_label_def)

lemma strip_label_Cons:
  "strip_label (c # cs) = (if c = CHR ''.'' then Some cs else strip_label cs)"
  by (simp add: strip_label_def)

lemma strip_labels_Suc_None:
  "strip_labels i d = None \<Longrightarrow> strip_labels (Suc i) d = None"
proof (induction i arbitrary: d)
  case 0
  then show ?case by simp
next
  case (Suc i)
  show ?case
  proof (cases "strip_label d")
    case None
    then show ?thesis by simp
  next
    case (Some d')
    with Suc.prems have "strip_labels i d' = None" by simp
    then have "strip_labels (Suc i) d' = None" by (rule Suc.IH)
    with Some show ?thesis by simp
  qed
qed

lemma strip_labels_tail_None:
  "strip_labels i (c # cs) = None \<Longrightarrow> strip_labels i cs = None"
proof (cases i)
  case 0
  assume "strip_labels i (c # cs) = None"
  with 0 show ?thesis by simp
next
  case (Suc j)
  assume a: "strip_labels i (c # cs) = None"
  show ?thesis
  proof (cases "c = CHR ''.''")
    case True
    with a Suc have "strip_labels j cs = None" by (simp add: strip_label_Cons)
    then have "strip_labels (Suc j) cs = None" by (rule strip_labels_Suc_None)
    with Suc show ?thesis by simp
  next
    case False
    with a Suc show ?thesis by (simp add: strip_label_Cons)
  qed
qed

lemma re_match_strip_labels:
  "LF \<notin> set s \<Longrightarrow> re_match i s = strip_labels i s"
proof (induction i s rule: re_match.induct)
  case (1 s)
  then have "takeWhile (\<lambda>c. c \<noteq> LF) s = s" by (intro takeWhile_eq_all_conv[THEN iffD2]) auto
  then show ?case by simp
next
  case (2 i)
  then show ?case by (simp add: strip_label_Nil)
next
  case (3 i c cs)
  from "3.prems" have nl: "c \<noteq> LF" "LF \<notin> set cs" by auto
  show ?case
  proof (cases "c = CHR ''.''")
    case True
    note dot = this
    have m: "re_match i cs = strip_labels i cs" using "3.IH"(1) dot nl by simp
    show ?thesis
    proof (cases "strip_labels i cs")
      case None
      then have "re_match i cs = None" using m by simp
      then have "re_match (Suc i) cs = strip_labels (Suc i) cs"
        using "3.IH"(2) dot nl by simp
      moreover have "strip_labels (Suc i) cs = None"
        using None by (rule strip_labels_Suc_None)
      ultimately show ?thesis using dot m None by (simp add: strip_label_Cons)
    next
      case (Some g)
      then show ?thesis using dot m by (simp add: strip_label_Cons)
    qed
  next
    case False
    then have "re_match (Suc i) cs = strip_labels (Suc i) cs"
      using "3.IH"(3) nl by simp
    then show ?thesis using False nl by (simp add: strip_label_Cons)
  qed
qed

lemma re_search_strip_labels:
  "LF \<notin> set s \<Longrightarrow> re_search i s = strip_labels i s"
proof (induction s)
  case Nil
  then show ?case by (simp add: re_match_strip_labels)
next
  case (Cons c cs)
  then have m: "re_match i (c # cs) = strip_labels i (c # cs)"
    by (intro re_match_strip_labels)
  show ?case
  proof (cases "strip_labels i (c # cs)")
    case None
    then have "strip_labels i cs = None" by (rule strip_labels_tail_None)
    moreover have "re_search i cs = strip_labels i cs" using Cons by simp
    ultimately show ?thesis using m None by simp
  next
    case (Some g)
    then show ?thesis using m by simp
  qed
qed

lemma find_dns_zone_id_Some_iff:
  assumes "well_formed_zones dns_zones"
  shows "(\<exists>zid. find_dns_zone_id dns_zones s = Some zid) \<longleftrightarrow> s \<in> zone_names dns_zones"
proof -
  let ?P = "\<lambda>z. fmlookup z ''name'' = Some (JStr s)"
  have no: "\<not> (\<exists>z \<in> set dns_zones. fmlookup z ''name'' = None)"
    using assms by (auto simp: well_formed_zones_def)
  show ?thesis
  proof (cases "filter ?P dns_zones")
    case Nil
    then have "\<forall>z \<in> set dns_zones. \<not> ?P z" by (simp add: filter_empty_conv)
    then have "s \<notin> zone_names dns_zones" by (auto simp: zone_names_def)
    moreover have "find_dns_zone_id dns_zones s = None"
      using no Nil by (simp add: find_dns_zone_id_def)
    ultimately show ?thesis by simp
  next
    case (Cons z zs)
    then have "z \<in> set (filter ?P dns_zones)" by simp
    then have z: "z \<in> set dns_zones" "?P z" by auto
    then have "s \<in> zone_names dns_zones" by (auto simp: zone_names_def)
    moreover have "fmlookup z ''id'' \<noteq> None"
      using assms z by (auto simp: well_formed_zones_def)
    then have "\<exists>zid. find_dns_zone_id dns_zones s = Some zid"
      using no Cons by (auto simp: find_dns_zone_id_def)
    ultimately show ?thesis by simp
  qed
qed

lemma find_dns_zone_id_first:
  assumes "find_dns_zone_id dns_zones s = Some zid"
  shows "\<exists>pre z post. dns_zones = pre @ z # post
           \<and> fmlookup z ''name'' = Some (JStr s) \<and> fmlookup z ''id'' = Some zid
           \<and> (\<forall>z' \<in> set pre. fmlookup z' ''name'' \<noteq> Some (JStr s))"
proof -
  let ?P = "\<lambda>z. fmlookup z ''name'' = Some (JStr s)"
  from assms obtain z zs where f: "filter ?P dns_zones = z # zs" and i: "fmlookup z ''id'' = Some zid"
    by (auto simp: find_dns_zone_id_def split: if_splits list.splits)
  from f obtain pre post where "dns_zones = pre @ z # post" "\<forall>u \<in> set pre. \<not> ?P u" "?P z"
    by (auto simp: filter_eq_Cons_iff)
  with i show ?thesis by blast
qed

lemma u_get_dns_zone_id_uniform:
  assumes "uniform_zone_list env dns_zones"
  shows "u_get_dns_zone_id env s t =
           ((case find_dns_zone_id dns_zones s of
               None \<Rightarrow> Inl (zone_lookup_error s)
             | Some zid \<Rightarrow> Inr zid), t @ [GetZoneList])"
proof -
  from assms obtain c tx where "zone_list_res env (count_zone_list t) = Response c tx (Some dns_zones)"
    unfolding uniform_zone_list_def by blast
  then show ?thesis
    by (simp add: u_get_dns_zone_id_def zone_lookup_error_def split: option.splits)
qed

declare zone_loop.simps [simp del]

lemma zone_attempt_uniform:
  assumes "uniform_zone_list env dns_zones" and "LF \<notin> set domain"
  shows "fst (zone_attempt env domain i t) = pass_result dns_zones domain i"
  using assms
  by (simp add: zone_attempt_def pass_result_def re_search_strip_labels
      u_get_dns_zone_id_uniform split: option.splits)

lemma zone_loop_unrolled:
  assumes "uniform_zone_list env dns_zones" and "LF \<notin> set domain"
  shows "fst (zone_loop env on_fail domain 0 t) =
     (case pass_result dns_zones domain 0 of Inr r \<Rightarrow> Inr r | Inl e0 \<Rightarrow>
     (case pass_result dns_zones domain 1 of Inr r \<Rightarrow> Inr r | Inl e1 \<Rightarrow>
     (case pass_result dns_zones domain 2 of Inr r \<Rightarrow> Inr r | Inl e2 \<Rightarrow>
     (case pass_result dns_zones domain 3 of Inr r \<Rightarrow> Inr r | Inl e3 \<Rightarrow> Inl (on_fail e3)))))"
proof -
  have a: "\<And>i t. fst (zone_attempt env domain i t) = pass_result dns_zones domain i"
    using assms by (rule zone_attempt_uniform)
  have step: "\<And>i j t. i < 3 \<Longrightarrow> j = Suc i \<Longrightarrow> fst (zone_loop env on_fail domain i t) =
      (case pass_result dns_zones domain i of Inr r \<Rightarrow> Inr r
       | Inl e \<Rightarrow> fst (zone_loop env on_fail domain j (snd (zone_attempt env domain i t))))"
    subgoal for i j t
      using a[of i t]
      by (subst zone_loop.simps) (auto split: prod.splits sum.splits)
    done
  have last: "\<And>t. fst (zone_loop env on_fail domain 3 t) =
      (case pass_result dns_zones domain 3 of Inr r \<Rightarrow> Inr r | Inl e \<Rightarrow> Inl (on_fail e))"
    subgoal for t
      using a[of 3 t]
      by (subst zone_loop.simps) (auto split: prod.splits sum.splits)
    done
  have s0: "fst (zone_loop env on_fail domain 0 t) =
      (case pass_result dns_zones domain 0 of Inr r \<Rightarrow> Inr r
       | Inl e \<Rightarrow> fst (zone_loop env on_fail domain 1 (snd (zone_attempt env domain 0 t))))"
    by (rule step) simp_all
  have s1: "\<And>t. fst (zone_loop env on_fail domain 1 t) =
      (case pass_result dns_zones domain 1 of Inr r \<Rightarrow> Inr r
       | Inl e \<Rightarrow> fst (zone_loop env on_fail domain 2 (snd (zone_attempt env domain 1 t))))"
    by (rule step) simp_all
  have s2: "\<And>t. fst (zone_loop env on_fail domain 2 t) =
      (case pass_result dns_zones domain 2 of Inr r \<Rightarrow> Inr r
       | Inl e \<Rightarrow> fst (zone_loop env on_fail domain 3 (snd (zone_attempt env domain 2 t))))"
    by (rule step) simp_all
  show ?thesis
    unfolding s0 s1 s2 last by (simp split: sum.splits)
qed

lemma ex_less_4: "(\<exists>k<4. Q k) \<longleftrightarrow> Q 0 \<or> Q 1 \<or> Q 2 \<or> Q (3::nat)"
proof -
  have "\<And>k::nat. k < 4 \<longleftrightarrow> k = 0 \<or> k = 1 \<or> k = 2 \<or> k = 3" by arith
  then show ?thesis by metis
qed

lemma all_less_cases:
  "(\<forall>j<(0::nat). Q j)"
  "(\<forall>j<(1::nat). Q j) \<longleftrightarrow> Q 0"
  "(\<forall>j<(2::nat). Q j) \<longleftrightarrow> Q 0 \<and> Q 1"
  "(\<forall>j<(3::nat). Q j) \<longleftrightarrow> Q 0 \<and> Q 1 \<and> Q 2"
proof -
  show "\<forall>j<(0::nat). Q j" by simp
  show "(\<forall>j<(1::nat). Q j) \<longleftrightarrow> Q 0" by simp
  have "\<And>j::nat. j < 2 \<longleftrightarrow> j = 0 \<or> j = 1" by arith
  then show "(\<forall>j<(2::nat). Q j) \<longleftrightarrow> Q 0 \<and> Q 1" by metis
  have "\<And>j::nat. j < 3 \<longleftrightarrow> j = 0 \<or> j = 1 \<or> j = 2" by arith
  then show "(\<forall>j<(3::nat). Q j) \<longleftrightarrow> Q 0 \<and> Q 1 \<and> Q 2" by metis
qed

lemma pass_result_Inr_iff:
  "pass_result dns_zones domain k = Inr (s, zid) \<longleftrightarrow>
     strip_labels k domain = Some s \<and> find_dns_zone_id dns_zones s = Some zid"
  by (auto simp: pass_result_def split: option.splits)

lemma pass_result_success_iff:
  assumes "well_formed_zones dns_zones"
  shows "(\<exists>r. pass_result dns_zones domain k = Inr r) \<longleftrightarrow>
     (\<exists>s. strip_labels k domain = Some s \<and> s \<in> zone_names dns_zones)"
proof (cases "strip_labels k domain")
  case None
  then show ?thesis by (simp add: pass_result_def)
next
  case (Some s)
  show ?thesis
  proof (cases "find_dns_zone_id dns_zones s")
    case None
    then have "s \<notin> zone_names dns_zones"
      using find_dns_zone_id_Some_iff[OF assms, of s] by simp
    then show ?thesis using Some None by (simp add: pass_result_def)
  next
    case (Some zid)
    then have "s \<in> zone_names dns_zones"
      using find_dns_zone_id_Some_iff[OF assms, of s] by simp
    then show ?thesis using \<open>strip_labels k domain = Some s\<close> Some by (simp add: pass_result_def)
  qed
qed

lemma pass_result_3_Inl:
  "pass_result dns_zones domain 3 = Inl e \<Longrightarrow>
     e = (case strip_labels 3 domain of
            None \<Rightarrow> AttributeError ''NoneType'' ''group''
          | Some s \<Rightarrow> zone_lookup_error s)"
  by (auto simp: pass_result_def split: option.splits)

text \<open>
  The loop under a uniform zone list, whatever the handler of its fourth pass raises.
\<close>

lemma zone_loop_resolution:
  assumes u: "uniform_zone_list env dns_zones"
    and wf: "well_formed_zones dns_zones"
    and nl: "LF \<notin> set domain"
  shows
    "((\<exists>r. fst (zone_loop env on_fail domain 0 t) = Inr r) \<longleftrightarrow>
        (\<exists>k<4. \<exists>s. strip_labels k domain = Some s \<and> s \<in> zone_names dns_zones))
     \<and> (\<forall>s zid. fst (zone_loop env on_fail domain 0 t) = Inr (s, zid) \<longrightarrow>
          (\<exists>k<4. strip_labels k domain = Some s
             \<and> (\<forall>j<k. \<forall>s'. strip_labels j domain = Some s' \<longrightarrow> s' \<notin> zone_names dns_zones)
             \<and> (\<exists>pre z post. dns_zones = pre @ z # post
                  \<and> fmlookup z ''name'' = Some (JStr s) \<and> fmlookup z ''id'' = Some zid
                  \<and> (\<forall>z' \<in> set pre. fmlookup z' ''name'' \<noteq> Some (JStr s)))))
     \<and> (\<not> (\<exists>k<4. \<exists>s. strip_labels k domain = Some s \<and> s \<in> zone_names dns_zones) \<longrightarrow>
          fst (zone_loop env on_fail domain 0 t) =
            Inl (on_fail (case strip_labels 3 domain of
                            None \<Rightarrow> AttributeError ''NoneType'' ''group''
                          | Some s \<Rightarrow> zone_lookup_error s)))"
proof -
  let ?p = "pass_result dns_zones domain"
  let ?R = "fst (zone_loop env on_fail domain 0 t)"
  let ?hit = "\<lambda>k. \<exists>s. strip_labels k domain = Some s \<and> s \<in> zone_names dns_zones"
  have un: "?R =
     (case ?p 0 of Inr r \<Rightarrow> Inr r | Inl e0 \<Rightarrow>
     (case ?p 1 of Inr r \<Rightarrow> Inr r | Inl e1 \<Rightarrow>
     (case ?p 2 of Inr r \<Rightarrow> Inr r | Inl e2 \<Rightarrow>
     (case ?p 3 of Inr r \<Rightarrow> Inr r | Inl e3 \<Rightarrow> Inl (on_fail e3)))))"
    using u nl by (rule zone_loop_unrolled)
  have hit: "\<And>k. (\<exists>r. ?p k = Inr r) \<longleftrightarrow> ?hit k"
    using wf by (rule pass_result_success_iff)
  have miss: "\<And>k. (\<exists>e. ?p k = Inl e) \<longleftrightarrow> \<not> ?hit k"
    using hit by (metis sum.exhaust sum.distinct(1))
  have first: "\<And>r. ?R = Inr r \<longleftrightarrow> (\<exists>k<4. ?p k = Inr r \<and> (\<forall>j<k. \<not> ?hit j))"
    unfolding un ex_less_4 all_less_cases miss[symmetric]
    by (auto split: sum.splits)
  have c1: "(\<exists>r. ?R = Inr r) \<longleftrightarrow> (\<exists>k<4. ?hit k)"
  proof
    assume "\<exists>r. ?R = Inr r"
    then obtain r k where "k < 4" "?p k = Inr r" using first by blast
    then show "\<exists>k<4. ?hit k" using hit by blast
  next
    assume "\<exists>k<4. ?hit k"
    then have "?hit 0 \<or> ?hit 1 \<or> ?hit 2 \<or> ?hit 3" unfolding ex_less_4 .
    then have "(\<exists>r. ?p 0 = Inr r) \<or> (\<exists>r. ?p 1 = Inr r) \<or> (\<exists>r. ?p 2 = Inr r) \<or> (\<exists>r. ?p 3 = Inr r)"
      unfolding hit .
    then show "\<exists>r. ?R = Inr r"
      unfolding un by (auto split: sum.splits)
  qed
  have c2: "\<forall>s zid. ?R = Inr (s, zid) \<longrightarrow>
          (\<exists>k<4. strip_labels k domain = Some s
             \<and> (\<forall>j<k. \<forall>s'. strip_labels j domain = Some s' \<longrightarrow> s' \<notin> zone_names dns_zones)
             \<and> (\<exists>pre z post. dns_zones = pre @ z # post
                  \<and> fmlookup z ''name'' = Some (JStr s) \<and> fmlookup z ''id'' = Some zid
                  \<and> (\<forall>z' \<in> set pre. fmlookup z' ''name'' \<noteq> Some (JStr s))))"
  proof (intro allI impI)
    fix s zid
    assume "?R = Inr (s, zid)"
    then obtain k where k: "k < 4" "?p k = Inr (s, zid)" "\<forall>j<k. \<not> ?hit j"
      using first by blast
    from k(2) have sl: "strip_labels k domain = Some s"
      and f: "find_dns_zone_id dns_zones s = Some zid"
      by (simp_all add: pass_result_Inr_iff)
    from k(3) have "\<forall>j<k. \<forall>s'. strip_labels j domain = Some s' \<longrightarrow> s' \<notin> zone_names dns_zones"
      by blast
    with k(1) sl find_dns_zone_id_first[OF f]
    show "\<exists>k<4. strip_labels k domain = Some s
             \<and> (\<forall>j<k. \<forall>s'. strip_labels j domain = Some s' \<longrightarrow> s' \<notin> zone_names dns_zones)
             \<and> (\<exists>pre z post. dns_zones = pre @ z # post
                  \<and> fmlookup z ''name'' = Some (JStr s) \<and> fmlookup z ''id'' = Some zid
                  \<and> (\<forall>z' \<in> set pre. fmlookup z' ''name'' \<noteq> Some (JStr s)))"
      by blast
  qed
  have c3: "\<not> (\<exists>k<4. ?hit k) \<longrightarrow>
          ?R = Inl (on_fail (case strip_labels 3 domain of
                            None \<Rightarrow> AttributeError ''NoneType'' ''group''
                          | Some s \<Rightarrow> zone_lookup_error s))"
  proof
    assume "\<not> (\<exists>k<4. ?hit k)"
    then have "\<not> ?hit 0" "\<not> ?hit 1" "\<not> ?hit 2" "\<not> ?hit 3"
      unfolding ex_less_4 by blast+
    then obtain e0 e1 e2 e3 where e: "?p 0 = Inl e0" "?p 1 = Inl e1" "?p 2 = Inl e2" "?p 3 = Inl e3"
      unfolding miss[symmetric] by blast
    from e(4) have "e3 = (case strip_labels 3 domain of
                            None \<Rightarrow> AttributeError ''NoneType'' ''group''
                          | Some s \<Rightarrow> zone_lookup_error s)"
      by (rule pass_result_3_Inl)
    then show "?R = Inl (on_fail (case strip_labels 3 domain of
                            None \<Rightarrow> AttributeError ''NoneType'' ''group''
                          | Some s \<Rightarrow> zone_lookup_error s))"
      unfolding un using e by simp
  qed
  from c1 c2 c3 show ?thesis by blast
qed

text \<open>
  Claim C1. For a domain without line feed, when the provider answers every zone-list
  request with the same list of zones, each with a name and an id, the loop of
  \<^verbatim>\<open>add_txt_record\<close> and the loop of \<^verbatim>\<open>delete_txt_record\<close> find a zone if and only if one
  of the suffixes of the domain left by stripping 0, 1, 2 or 3 leftmost labels is the name
  of a zone of the list. The loop then returns that suffix and the id of the first zone
  of the list of that name, for the least number of stripped labels whose suffix is a
  zone name. Otherwise the fourth pass fails and its handler raises the \<^verbatim>\<open>PluginError\<close>
  that says that the domain zone was not found: in \<^verbatim>\<open>add_txt_record\<close> the text
  \<^verbatim>\<open>Error occurred while trying to get domain zone name.\<close>, in
  \<^verbatim>\<open>delete_txt_record\<close> the text
  \<^verbatim>\<open>Error occurred while trying to get domain zone name and id.\<close> followed by the text of
  the error of the fourth pass, which is that of \<^verbatim>\<open>_get_dns_zone_id\<close> for the fourth
  suffix, or that of the failed search when the domain has fewer than three dots.
\<close>

theorem zone_resolution_iff:
  assumes u: "uniform_zone_list env dns_zones"
    and wf: "well_formed_zones dns_zones"
    and nl: "LF \<notin> set domain"
  shows
    "((\<exists>r. fst (zone_loop env add_zone_error domain 0 t) = Inr r) \<longleftrightarrow>
        (\<exists>k<4. \<exists>s. strip_labels k domain = Some s \<and> s \<in> zone_names dns_zones))
     \<and> ((\<exists>r. fst (zone_loop env delete_zone_error domain 0 t) = Inr r) \<longleftrightarrow>
        (\<exists>k<4. \<exists>s. strip_labels k domain = Some s \<and> s \<in> zone_names dns_zones))
     \<and> (\<forall>s zid. fst (zone_loop env add_zone_error domain 0 t) = Inr (s, zid)
                  \<or> fst (zone_loop env delete_zone_error domain 0 t) = Inr (s, zid) \<longrightarrow>
          (\<exists>k<4. strip_labels k domain = Some s
             \<and> (\<forall>j<k. \<forall>s'. strip_labels j domain = Some s' \<longrightarrow> s' \<notin> zone_names dns_zones)
             \<and> (\<exists>pre z post. dns_zones = pre @ z # post
                  \<and> fmlookup z ''name'' = Some (JStr s) \<and> fmlookup z ''id'' = Some zid
                  \<and> (\<forall>z' \<in> set pre. fmlookup z' ''name'' \<noteq> Some (JStr s)))))
     \<and> (\<not> (\<exists>k<4. \<exists>s. strip_labels k domain = Some s \<and> s \<in> zone_names dns_zones) \<longrightarrow>
          fst (zone_loop env add_zone_error domain 0 t) =
            Inl (PluginError [Lit ''Error occurred while trying to get domain zone name.'', NL])
        \<and> fst (zone_loop env delete_zone_error domain 0 t) =
            Inl (PluginError
                   [Lit ''Error occurred while trying to get domain zone name and id.'', NL,
                    Lit ''Error text: '',
                    Cause (case strip_labels 3 domain of
                             None \<Rightarrow> AttributeError ''NoneType'' ''group''
                           | Some s \<Rightarrow>
                               PluginError
                                 [Lit ''Error occurred while trying to get dns zone id for domain '',
                                  Lit s, Lit ''.'', NL]),
                    Lit ''.'', NL]))"
proof -
  note a = zone_loop_resolution[OF u wf nl, of add_zone_error t]
  note d = zone_loop_resolution[OF u wf nl, of delete_zone_error t]
  have e: "(case strip_labels 3 domain of
              None \<Rightarrow> AttributeError ''NoneType'' ''group''
            | Some s \<Rightarrow> zone_lookup_error s)
         = (case strip_labels 3 domain of
              None \<Rightarrow> AttributeError ''NoneType'' ''group''
            | Some s \<Rightarrow>
                PluginError
                  [Lit ''Error occurred while trying to get dns zone id for domain '',
                   Lit s, Lit ''.'', NL])"
    by (simp add: zone_lookup_error_def split: option.splits)
  from a have a1: "(\<exists>r. fst (zone_loop env add_zone_error domain 0 t) = Inr r) \<longleftrightarrow>
        (\<exists>k<4. \<exists>s. strip_labels k domain = Some s \<and> s \<in> zone_names dns_zones)"
    by (rule conjunct1)
  from d have d1: "(\<exists>r. fst (zone_loop env delete_zone_error domain 0 t) = Inr r) \<longleftrightarrow>
        (\<exists>k<4. \<exists>s. strip_labels k domain = Some s \<and> s \<in> zone_names dns_zones)"
    by (rule conjunct1)
  note a2 = a[THEN conjunct2, THEN conjunct1]
  note d2 = d[THEN conjunct2, THEN conjunct1]
  have first: "\<forall>s zid. fst (zone_loop env add_zone_error domain 0 t) = Inr (s, zid)
                  \<or> fst (zone_loop env delete_zone_error domain 0 t) = Inr (s, zid) \<longrightarrow>
          (\<exists>k<4. strip_labels k domain = Some s
             \<and> (\<forall>j<k. \<forall>s'. strip_labels j domain = Some s' \<longrightarrow> s' \<notin> zone_names dns_zones)
             \<and> (\<exists>pre z post. dns_zones = pre @ z # post
                  \<and> fmlookup z ''name'' = Some (JStr s) \<and> fmlookup z ''id'' = Some zid
                  \<and> (\<forall>z' \<in> set pre. fmlookup z' ''name'' \<noteq> Some (JStr s))))"
  proof (intro allI impI)
    fix s zid
    assume "fst (zone_loop env add_zone_error domain 0 t) = Inr (s, zid)
          \<or> fst (zone_loop env delete_zone_error domain 0 t) = Inr (s, zid)"
    then show "\<exists>k<4. strip_labels k domain = Some s
             \<and> (\<forall>j<k. \<forall>s'. strip_labels j domain = Some s' \<longrightarrow> s' \<notin> zone_names dns_zones)
             \<and> (\<exists>pre z post. dns_zones = pre @ z # post
                  \<and> fmlookup z ''name'' = Some (JStr s) \<and> fmlookup z ''id'' = Some zid
                  \<and> (\<forall>z' \<in> set pre. fmlookup z' ''name'' \<noteq> Some (JStr s)))"
    proof
      assume "fst (zone_loop env add_zone_error domain 0 t) = Inr (s, zid)"
      with a2[THEN spec, THEN spec, THEN mp] show ?thesis .
    next
      assume "fst (zone_loop env delete_zone_error domain 0 t) = Inr (s, zid)"
      with d2[THEN spec, THEN spec, THEN mp] show ?thesis .
    qed
  qed
  have last: "\<not> (\<exists>k<4. \<exists>s. strip_labels k domain = Some s \<and> s \<in> zone_names dns_zones) \<longrightarrow>
          fst (zone_loop env add_zone_error domain 0 t) =
            Inl (PluginError [Lit ''Error occurred while trying to get domain zone name.'', NL])
        \<and> fst (zone_loop env delete_zone_error domain 0 t) =
            Inl (PluginError
                   [Lit ''Error occurred while trying to get domain zone name and id.'', NL,
                    Lit ''Error text: '',
                    Cause (case strip_labels 3 domain of
                             None \<Rightarrow> AttributeError ''NoneType'' ''group''
                           | Some s \<Rightarrow>
                               PluginError
                                 [Lit ''Error occurred while trying to get dns zone id for domain '',
                                  Lit s, Lit ''.'', NL]),
                    Lit ''.'', NL])"
  proof
    assume n: "\<not> (\<exists>k<4. \<exists>s. strip_labels k domain = Some s \<and> s \<in> zone_names dns_zones)"
    from a[THEN conjunct2, THEN conjunct2, THEN mp, OF n]
    have x: "fst (zone_loop env add_zone_error domain 0 t) =
            Inl (PluginError [Lit ''Error occurred while trying to get domain zone name.'', NL])"
      by (simp add: add_zone_error_def)
    from d[THEN conjunct2, THEN conjunct2, THEN mp, OF n]
    have y: "fst (zone_loop env delete_zone_error domain 0 t) =
            Inl (PluginError
                   [Lit ''Error occurred while trying to get domain zone name and id.'', NL,
                    Lit ''Error text: '',
                    Cause (case strip_labels 3 domain of
                             None \<Rightarrow> AttributeError ''NoneType'' ''group''
                           | Some s \<Rightarrow>
                               PluginError
                                 [Lit ''Error occurred while trying to get dns zone id for domain '',
                                  Lit s, Lit ''.'', NL]),
                    Lit ''.'', NL])"
      unfolding e by (simp add: delete_zone_error_def)
    from x y show "fst (zone_loop env add_zone_error domain 0 t) =
            Inl (PluginError [Lit ''Error occurred while trying to get domain zone name.'', NL])
        \<and> fst (zone_loop env delete_zone_error domain 0 t) =
            Inl (PluginError
                   [Lit ''Error occurred while trying to get domain zone name and id.'', NL,
                    Lit ''Error text: '',
                    Cause (case strip_labels 3 domain of
                             None \<Rightarrow> AttributeError ''NoneType'' ''group''
                           | Some s \<Rightarrow>
                               PluginError
                                 [Lit ''Error occurred while trying to get dns zone id for domain '',
                                  Lit s, Lit ''.'', NL]),
                    Lit ''.'', NL])"
      by (rule conjI)
  qed
  from a1 d1 first last show ?thesis by (intro conjI)
qed

theorem zone_resolution_iff_witness:
  "uniform_zone_list example_env example_zones \<and> well_formed_zones example_zones
   \<and> LF \<notin> set ''www.example.com''
   \<and> (\<exists>r. fst (zone_loop example_env add_zone_error ''www.example.com'' 0 []) = Inr r)
   \<and> LF \<notin> set ''www.example.net''
   \<and> fst (zone_loop example_env add_zone_error ''www.example.net'' 0 []) =
       Inl (PluginError [Lit ''Error occurred while trying to get domain zone name.'', NL])
   \<and> fst (zone_loop example_env delete_zone_error ''www.example.net'' 0 []) =
       Inl (PluginError
              [Lit ''Error occurred while trying to get domain zone name and id.'', NL,
               Lit ''Error text: '', Cause (AttributeError ''NoneType'' ''group''),
               Lit ''.'', NL])"
proof -
  have u: "uniform_zone_list example_env example_zones"
    by (simp add: uniform_zone_list_def example_env_def)
  have wf: "well_formed_zones example_zones"
    by (simp add: well_formed_zones_def example_zones_def)
  have nl: "LF \<notin> set ''www.example.com''"
    by (simp add: LF_def)
  have nl2: "LF \<notin> set ''www.example.net''"
    by (simp add: LF_def)
  have s: "strip_labels 1 ''www.example.com'' = Some ''example.com''"
    by (simp add: strip_label_Cons)
  have z: "''example.com'' \<in> zone_names example_zones"
    by (simp add: zone_names_def example_zones_def)
  have "\<exists>k<4. \<exists>s. strip_labels k ''www.example.com'' = Some s \<and> s \<in> zone_names example_zones"
    using s z by (intro exI[of _ "1::nat"]) simp
  with zone_resolution_iff[OF u wf nl, of "[]", THEN conjunct1]
  have found: "\<exists>r. fst (zone_loop example_env add_zone_error ''www.example.com'' 0 []) = Inr r"
    by blast
  have names: "zone_names example_zones = {''example.com'', ''example.org''}"
    by (auto simp: zone_names_def example_zones_def)
  have l0: "strip_labels 0 ''www.example.net'' = Some ''www.example.net''" by simp
  have l1: "strip_labels 1 ''www.example.net'' = Some ''example.net''"
    by (simp add: strip_label_Cons)
  have l2: "strip_labels 2 ''www.example.net'' = Some ''net''"
    by (simp add: strip_label_Cons numeral_2_eq_2)
  have l3: "strip_labels 3 ''www.example.net'' = None"
    by (simp add: strip_label_Cons strip_label_def numeral_3_eq_3)
  have miss: "\<not> (\<exists>k<4. \<exists>s. strip_labels k ''www.example.net'' = Some s
                   \<and> s \<in> zone_names example_zones)"
    unfolding ex_less_4 l0 l1 l2 l3 names by simp
  from zone_resolution_iff[OF u wf nl2, of "[]", THEN conjunct2, THEN conjunct2, THEN conjunct2,
      THEN mp, OF miss]
  have lost: "fst (zone_loop example_env add_zone_error ''www.example.net'' 0 []) =
       Inl (PluginError [Lit ''Error occurred while trying to get domain zone name.'', NL])
   \<and> fst (zone_loop example_env delete_zone_error ''www.example.net'' 0 []) =
       Inl (PluginError
              [Lit ''Error occurred while trying to get domain zone name and id.'', NL,
               Lit ''Error text: '', Cause (AttributeError ''NoneType'' ''group''),
               Lit ''.'', NL])"
    unfolding l3 by simp
  note la = lost[THEN conjunct1] and ld = lost[THEN conjunct2]
  from u wf nl found nl2 la ld show ?thesis by (intro conjI)
qed

section \<open>The concrete environment, field by field\<close>

lemma example_env_sel:
  "customer_id example_env = ''42''"
  "zone_list_res example_env = (\<lambda>k. Response 200 ''OK'' (Some example_zones))"
  "zone_res example_env = (\<lambda>dns_zone_id. Response 200 ''OK'' (Some example_records))"
  "patch_res example_env = (\<lambda>dns_zone_id body. Response 200 ''OK'' (Some body))"
  "now example_env = example_now"
  "write_file example_env = (\<lambda>file_path. None)"
  "dig example_env = (\<lambda>record_name k. Inr (if k < 2 then [] else [CHR 0x22 # ''abc123'' @ [CHR 0x22]]))"
  "re_sub example_env = plain_re_sub"
  by (simp_all add: example_env_def)

lemma example_re_sub:
  "plain_re_sub (zone_suffix_pattern ''example.com'') [] ''_acme-challenge.www.example.com''
     = Inr ''_acme-challenge.www''"
  by code_simp

section \<open>Properties of the record-set helpers\<close>

lemma deref_append_old: "a < length h \<Longrightarrow> deref (h @ h') a = deref h a"
  by (simp add: deref_def nth_append)

lemma deref_append_new: "deref (h @ h') (length h + i) = deref h' i"
  by (simp add: deref_def nth_append)

lemma map_deref_append_old:
  "valid_refs h refs \<Longrightarrow> map (deref (h @ h')) refs = map (deref h) refs"
  by (simp add: valid_refs_def deref_append_old)

lemma map_deref_fresh:
  "map (deref (h @ h')) [length h..<length h + length h'] = h'"
proof (rule nth_equalityI)
  show "length (map (deref (h @ h')) [length h..<length h + length h']) = length h'" by simp
next
  fix i assume "i < length (map (deref (h @ h')) [length h..<length h + length h'])"
  then have i: "i < length h'" by simp
  then show "map (deref (h @ h')) [length h..<length h + length h'] ! i = h' ! i"
    by (simp add: deref_def nth_append)
qed

lemma deepcopy_values:
  "map (deref (fst (deepcopy h refs))) (snd (deepcopy h refs)) = map (deref h) refs"
  using map_deref_fresh[of h "map (deref h) refs"] by (simp add: deepcopy_def)

lemma deepcopy_valid:
  "valid_refs h refs \<Longrightarrow> valid_refs (fst (deepcopy h refs)) refs"
  "valid_refs (fst (deepcopy h refs)) (snd (deepcopy h refs))"
  by (auto simp: deepcopy_def valid_refs_def)

lemma deepcopy_old:
  "valid_refs h refs \<Longrightarrow> map (deref (fst (deepcopy h refs))) refs = map (deref h) refs"
  by (simp add: deepcopy_def map_deref_append_old)

lemma u_add_txt_record_values:
  "map (deref (fst (u_add_txt_record n d h refs))) (snd (u_add_txt_record n d h refs))
     = map (deref h) refs @ [txt_record n d]"
proof -
  obtain h1 new where dc: "deepcopy h refs = (h1, new)" by (cases "deepcopy h refs")
  have v: "valid_refs h1 new" using deepcopy_valid(2)[of h refs] dc by simp
  have vals: "map (deref h1) new = map (deref h) refs" using deepcopy_values[of h refs] dc by simp
  have "map (deref (h1 @ [txt_record n d])) new = map (deref h) refs"
    using v vals by (simp add: map_deref_append_old)
  moreover have "deref (h1 @ [txt_record n d]) (length h1) = txt_record n d"
    by (simp add: deref_def)
  ultimately show ?thesis by (simp add: u_add_txt_record_def dc)
qed

lemma u_add_txt_record_valid:
  "valid_refs (fst (u_add_txt_record n d h refs)) (snd (u_add_txt_record n d h refs))"
proof -
  obtain h1 new where dc: "deepcopy h refs = (h1, new)" by (cases "deepcopy h refs")
  have v: "valid_refs h1 new" using deepcopy_valid(2)[of h refs] dc by simp
  then show ?thesis by (auto simp: u_add_txt_record_def dc valid_refs_def)
qed

lemma u_add_txt_record_old:
  "a < length h \<Longrightarrow> deref (fst (u_add_txt_record n d h refs)) a = deref h a"
  by (simp add: u_add_txt_record_def deepcopy_def deref_def nth_append)

lemma u_delete_txt_record_refs:
  "valid_refs h refs \<Longrightarrow>
   snd (u_delete_txt_record n d h refs) = filter (\<lambda>a. deref h a \<noteq> txt_record n d) refs"
proof -
  assume v: "valid_refs h refs"
  have "\<And>a. a \<in> set refs \<Longrightarrow> deref (h @ map (deref h) refs) a = deref h a"
    using v by (simp add: valid_refs_def deref_append_old)
  then have "filter (\<lambda>a. deref (h @ map (deref h) refs) a \<noteq> txt_record n d) refs
      = filter (\<lambda>a. deref h a \<noteq> txt_record n d) refs"
    by (intro filter_cong refl) simp
  then show ?thesis
    by (simp add: u_delete_txt_record_def deepcopy_def)
qed

lemma u_delete_txt_record_old:
  "a < length h \<Longrightarrow> deref (fst (u_delete_txt_record n d h refs)) a = deref h a"
  by (simp add: u_delete_txt_record_def deepcopy_def deref_append_old)

lemma u_delete_txt_record_values:
  assumes "valid_refs h refs"
  shows "map (deref (fst (u_delete_txt_record n d h refs))) (snd (u_delete_txt_record n d h refs))
     = filter (\<lambda>r. r \<noteq> txt_record n d) (map (deref h) refs)"
proof -
  have "\<And>a. a \<in> set (filter (\<lambda>a. deref h a \<noteq> txt_record n d) refs) \<Longrightarrow>
      deref (fst (u_delete_txt_record n d h refs)) a = deref h a"
    using assms by (auto simp: valid_refs_def u_delete_txt_record_old)
  then have "map (deref (fst (u_delete_txt_record n d h refs)))
        (filter (\<lambda>a. deref h a \<noteq> txt_record n d) refs)
      = map (deref h) (filter (\<lambda>a. deref h a \<noteq> txt_record n d) refs)"
    by (intro map_cong) auto
  then show ?thesis
    using assms by (simp add: u_delete_txt_record_refs filter_map comp_def)
qed

lemma add_then_remove_eq:
  "add_then_remove n d h refs = filter (\<lambda>r. r \<noteq> txt_record n d) (map (deref h) refs)"
proof -
  let ?h1 = "fst (u_add_txt_record n d h refs)"
  let ?r1 = "snd (u_add_txt_record n d h refs)"
  have "add_then_remove n d h refs
      = map (deref (fst (u_delete_txt_record n d ?h1 ?r1))) (snd (u_delete_txt_record n d ?h1 ?r1))"
    by (simp add: add_then_remove_def split: prod.splits)
  also have "\<dots> = filter (\<lambda>r. r \<noteq> txt_record n d) (map (deref ?h1) ?r1)"
    using u_add_txt_record_valid by (rule u_delete_txt_record_values)
  also have "\<dots> = filter (\<lambda>r. r \<noteq> txt_record n d) (map (deref h) refs)"
    by (simp add: u_add_txt_record_values)
  finally show ?thesis .
qed

lemma txt_record_lookup:
  "fmlookup (txt_record n d) k =
     (if k = ''data'' then Some (JStr d) else if k = ''name'' then Some (JStr n)
      else if k = ''type'' then Some (JStr ''TXT'') else None)"
  by (simp add: txt_record_def)

lemma txt_record_dom: "fmdom' (txt_record n d) = {''data'', ''name'', ''type''}"
  by (simp add: txt_record_def)

text \<open>
  Claim C3, as stated: \<^verbatim>\<open>_add_txt_record\<close> and then \<^verbatim>\<open>_delete_txt_record\<close> with the
  same name and value give back the record set they started from, whatever the order.
  It fails on a record set that already holds the record: the removal filters out
  every equal record, the old one with the new one.
\<close>

theorem add_then_remove_counterexample:
  "mset (add_then_remove ''_acme-challenge'' ''abc123''
           [txt_record ''_acme-challenge'' ''abc123''] [0])
     \<noteq> mset (map (deref [txt_record ''_acme-challenge'' ''abc123'']) [0])"
proof -
  have "add_then_remove ''_acme-challenge'' ''abc123''
          [txt_record ''_acme-challenge'' ''abc123''] [0] = []"
    by (simp add: add_then_remove_eq deref_def)
  then show ?thesis by simp
qed

text \<open>
  Claim C3, amended. On a record set that holds no record equal to the one added,
  \<^verbatim>\<open>_add_txt_record\<close> and then \<^verbatim>\<open>_delete_txt_record\<close> with the same name and value give
  back the records they started from, in the same order.
\<close>

theorem add_then_remove_restores:
  assumes "\<forall>a \<in> set refs. deref h a \<noteq> txt_record record_name record_data"
  shows "add_then_remove record_name record_data h refs = map (deref h) refs"
  using assms by (simp add: add_then_remove_eq)

theorem add_then_remove_restores_witness:
  "deref example_records 0 \<noteq> txt_record ''_acme-challenge'' ''abc123''
   \<and> deref example_records 1 \<noteq> txt_record ''_acme-challenge'' ''abc123''
   \<and> add_then_remove ''_acme-challenge'' ''abc123'' example_records [0, 1]
       = map (deref example_records) [0, 1]"
proof -
  have h0: "deref example_records 0 \<noteq> txt_record ''_acme-challenge'' ''abc123''"
    by code_simp
  have h1: "deref example_records 1 \<noteq> txt_record ''_acme-challenge'' ''abc123''"
    by code_simp
  have h: "\<forall>a \<in> set [0, 1]. deref example_records a \<noteq> txt_record ''_acme-challenge'' ''abc123''"
    using h0 h1 by simp
  from h0 h1 add_then_remove_restores[OF h] show ?thesis by (intro conjI)
qed

text \<open>
  Claim C6. When no record of the list is equal to the TXT record of the given name and
  value, \<^verbatim>\<open>_delete_txt_record\<close> returns the list of the very records it was given, in
  the same order and with the same contents. The function has no failing branch: its
  result is always a record list.
\<close>

theorem remove_absent_is_noop:
  assumes "valid_refs h refs"
    and "\<forall>a \<in> set refs. deref h a \<noteq> txt_record record_name record_data"
  shows "snd (u_delete_txt_record record_name record_data h refs) = refs
     \<and> map (deref (fst (u_delete_txt_record record_name record_data h refs)))
           (snd (u_delete_txt_record record_name record_data h refs))
         = map (deref h) refs"
proof -
  have f: "filter (\<lambda>a. deref h a \<noteq> txt_record record_name record_data) refs = refs"
    using assms(2) by simp
  have g: "filter (\<lambda>r. r \<noteq> txt_record record_name record_data) (map (deref h) refs)
      = map (deref h) refs"
    using assms(2) by simp
  show ?thesis
    using u_delete_txt_record_values[OF assms(1), of record_name record_data]
      u_delete_txt_record_refs[OF assms(1), of record_name record_data]
    by (simp only: f g simp_thms)
qed

theorem remove_absent_is_noop_witness:
  "valid_refs example_records [0, 1]
   \<and> deref example_records 0 \<noteq> txt_record ''_acme-challenge'' ''abc123''
   \<and> deref example_records 1 \<noteq> txt_record ''_acme-challenge'' ''abc123''
   \<and> snd (u_delete_txt_record ''_acme-challenge'' ''abc123'' example_records [0, 1]) = [0, 1]
   \<and> map (deref (fst (u_delete_txt_record ''_acme-challenge'' ''abc123'' example_records [0, 1])))
          (snd (u_delete_txt_record ''_acme-challenge'' ''abc123'' example_records [0, 1]))
        = map (deref example_records) [0, 1]"
proof -
  have v: "valid_refs example_records [0, 1]"
    by (simp add: valid_refs_def example_records_def)
  have h0: "deref example_records 0 \<noteq> txt_record ''_acme-challenge'' ''abc123''"
    by code_simp
  have h1: "deref example_records 1 \<noteq> txt_record ''_acme-challenge'' ''abc123''"
    by code_simp
  have h: "\<forall>a \<in> set [0, 1]. deref example_records a \<noteq> txt_record ''_acme-challenge'' ''abc123''"
    using h0 h1 by simp
  note t = remove_absent_is_noop[OF v h]
  from v h0 h1 t[THEN conjunct1] t[THEN conjunct2] show ?thesis by (intro conjI)
qed

text \<open>
  Claim C10. \<^verbatim>\<open>_delete_txt_record\<close> drops a record of the list only when the record is
  equal to the dictionary of exactly the three keys \<^verbatim>\<open>data\<close>, \<^verbatim>\<open>name\<close> and \<^verbatim>\<open>type\<close>
  with the given value, the given name and \<^verbatim>\<open>TXT\<close>. A record whose name, type and
  data match and that has any further key stays in the result, unchanged.
\<close>

theorem remove_only_exact_record:
  assumes "valid_refs h refs"
  shows "(\<forall>a \<in> set refs. a \<notin> set (snd (u_delete_txt_record record_name record_data h refs))
            \<longrightarrow> deref h a = txt_record record_name record_data)
     \<and> fmdom' (txt_record record_name record_data) = {''data'', ''name'', ''type''}
     \<and> (\<forall>a \<in> set refs. \<forall>k.
            fmlookup (deref h a) ''name'' = Some (JStr record_name)
          \<and> fmlookup (deref h a) ''type'' = Some (JStr ''TXT'')
          \<and> fmlookup (deref h a) ''data'' = Some (JStr record_data)
          \<and> k \<notin> {''data'', ''name'', ''type''} \<and> fmlookup (deref h a) k \<noteq> None
          \<longrightarrow> a \<in> set (snd (u_delete_txt_record record_name record_data h refs))
              \<and> deref (fst (u_delete_txt_record record_name record_data h refs)) a = deref h a)"
proof -
  have r: "snd (u_delete_txt_record record_name record_data h refs)
      = filter (\<lambda>a. deref h a \<noteq> txt_record record_name record_data) refs"
    using assms by (rule u_delete_txt_record_refs)
  have extra: "\<And>a k. k \<notin> {''data'', ''name'', ''type''} \<Longrightarrow> fmlookup (deref h a) k \<noteq> None
      \<Longrightarrow> deref h a \<noteq> txt_record record_name record_data"
  proof
    fix a k
    assume k: "k \<notin> {''data'', ''name'', ''type''}" and l: "fmlookup (deref h a) k \<noteq> None"
      and e: "deref h a = txt_record record_name record_data"
    from k have "fmlookup (txt_record record_name record_data) k = None"
      by (simp add: txt_record_lookup)
    with l e show False by simp
  qed
  have old: "\<And>a. a \<in> set refs \<Longrightarrow>
      deref (fst (u_delete_txt_record record_name record_data h refs)) a = deref h a"
    using assms by (simp add: valid_refs_def u_delete_txt_record_old)
  have c1: "\<forall>a \<in> set refs. a \<notin> set (snd (u_delete_txt_record record_name record_data h refs))
            \<longrightarrow> deref h a = txt_record record_name record_data"
    unfolding r by simp
  have c3: "\<forall>a \<in> set refs. \<forall>k.
            fmlookup (deref h a) ''name'' = Some (JStr record_name)
          \<and> fmlookup (deref h a) ''type'' = Some (JStr ''TXT'')
          \<and> fmlookup (deref h a) ''data'' = Some (JStr record_data)
          \<and> k \<notin> {''data'', ''name'', ''type''} \<and> fmlookup (deref h a) k \<noteq> None
          \<longrightarrow> a \<in> set (snd (u_delete_txt_record record_name record_data h refs))
              \<and> deref (fst (u_delete_txt_record record_name record_data h refs)) a = deref h a"
  proof (intro ballI allI impI)
    fix a k
    assume a: "a \<in> set refs"
      and "fmlookup (deref h a) ''name'' = Some (JStr record_name)
          \<and> fmlookup (deref h a) ''type'' = Some (JStr ''TXT'')
          \<and> fmlookup (deref h a) ''data'' = Some (JStr record_data)
          \<and> k \<notin> {''data'', ''name'', ''type''} \<and> fmlookup (deref h a) k \<noteq> None"
    then have "k \<notin> {''data'', ''name'', ''type''}" "fmlookup (deref h a) k \<noteq> None" by blast+
    then have "deref h a \<noteq> txt_record record_name record_data" by (rule extra)
    with a have "a \<in> set (snd (u_delete_txt_record record_name record_data h refs))"
      unfolding r by simp
    with old[OF a]
    show "a \<in> set (snd (u_delete_txt_record record_name record_data h refs))
              \<and> deref (fst (u_delete_txt_record record_name record_data h refs)) a = deref h a"
      by simp
  qed
  from c1 c3 txt_record_dom[of record_name record_data] show ?thesis by blast
qed

theorem remove_only_exact_record_witness:
  "valid_refs [extra_field_record] [0]
   \<and> 0 \<in> set (snd (u_delete_txt_record ''_acme-challenge'' ''abc123'' [extra_field_record] [0]))
   \<and> deref (fst (u_delete_txt_record ''_acme-challenge'' ''abc123'' [extra_field_record] [0])) 0
       = deref [extra_field_record] 0"
proof -
  have v: "valid_refs [extra_field_record] [0]"
    by (simp add: valid_refs_def)
  have l: "fmlookup (deref [extra_field_record] 0) ''name'' = Some (JStr ''_acme-challenge'')
      \<and> fmlookup (deref [extra_field_record] 0) ''type'' = Some (JStr ''TXT'')
      \<and> fmlookup (deref [extra_field_record] 0) ''data'' = Some (JStr ''abc123'')
      \<and> ''ttl'' \<notin> {''data'', ''name'', ''type''}
      \<and> fmlookup (deref [extra_field_record] 0) ''ttl'' \<noteq> None"
    by (simp add: deref_def extra_field_record_def)
  have m: "(0::nat) \<in> set [0]" by simp
  note t = remove_only_exact_record[OF v, of "''_acme-challenge''" "''abc123''"]
  note t3 = t[THEN conjunct2, THEN conjunct2, THEN bspec, OF m, THEN spec, of "''ttl''", THEN mp, OF l]
  from v t3 show ?thesis by (rule conjI)
qed

section \<open>Properties of the replacement of the records\<close>

lemma pop_link_Inr: "pop_link v = Inr v' \<Longrightarrow> \<exists>d. v = JObj d \<and> v' = JObj (fmdrop ''link'' d)"
  by (cases v) (simp_all add: pop_link_def)

lemma strip_record_config:
  assumes "strip_record r = Inr r'" and "fmlookup r ''configRef'' = Some v"
  shows "\<exists>d. v = JObj d \<and> r' = fmupd ''configRef'' (JObj (fmdrop ''link'' d)) r"
proof -
  from assms obtain v' where p: "pop_link v = Inr v'" and r': "r' = fmupd ''configRef'' v' r"
    by (auto simp: strip_record_def split: sum.splits)
  from pop_link_Inr[OF p] r' show ?thesis by blast
qed

lemma strip_record_target:
  assumes "strip_record r = Inr r'" and "fmlookup r ''configRef'' = None"
    and "fmlookup r ''targetGroupRef'' = Some v"
  shows "\<exists>d. v = JObj d \<and> r' = fmupd ''targetGroupRef'' (JObj (fmdrop ''link'' d)) r"
proof -
  from assms obtain v' where p: "pop_link v = Inr v'" and r': "r' = fmupd ''targetGroupRef'' v' r"
    by (auto simp: strip_record_def split: sum.splits)
  from pop_link_Inr[OF p] r' show ?thesis by blast
qed

lemma strip_record_none:
  assumes "strip_record r = Inr r'" and "fmlookup r ''configRef'' = None"
    and "fmlookup r ''targetGroupRef'' = None"
  shows "r' = r"
  using assms by (simp add: strip_record_def)

lemma strip_links_result:
  assumes "distinct refs" and "valid_refs h refs" and "strip_links h refs = Inr h'"
  shows "length h' = length h
     \<and> (\<forall>a \<in> set refs. strip_record (deref h a) = Inr (deref h' a))
     \<and> (\<forall>a. a \<notin> set refs \<longrightarrow> deref h' a = deref h a)"
  using assms
proof (induction refs arbitrary: h)
  case Nil
  then show ?case by simp
next
  case (Cons a refs)
  from Cons.prems(3) obtain r where r: "strip_record (deref h a) = Inr r"
    and rest: "strip_links (h[a := r]) refs = Inr h'"
    by (auto split: sum.splits)
  have d: "distinct refs" and an: "a \<notin> set refs" using Cons.prems(1) by simp_all
  have al: "a < length h" using Cons.prems(2) by (simp add: valid_refs_def)
  have v: "valid_refs (h[a := r]) refs" using Cons.prems(2) by (simp add: valid_refs_def)
  from Cons.IH[OF d v rest]
  have len: "length h' = length (h[a := r])"
    and str: "\<forall>b \<in> set refs. strip_record (deref (h[a := r]) b) = Inr (deref h' b)"
    and oth: "\<forall>b. b \<notin> set refs \<longrightarrow> deref h' b = deref (h[a := r]) b"
    by blast+
  have upd: "\<And>b. deref (h[a := r]) b = (if b = a then r else deref h b)"
    using al by (simp add: deref_def)
  have "deref h' a = deref (h[a := r]) a" using oth an by blast
  then have "deref h' a = r" by (simp add: upd)
  then have c1: "strip_record (deref h a) = Inr (deref h' a)" using r by simp
  have c2: "\<forall>b \<in> set refs. strip_record (deref h b) = Inr (deref h' b)"
  proof
    fix b assume b: "b \<in> set refs"
    then have "b \<noteq> a" using an by blast
    then have "deref (h[a := r]) b = deref h b" by (simp add: upd)
    with str b show "strip_record (deref h b) = Inr (deref h' b)" by auto
  qed
  have c3: "\<forall>b. b \<notin> set (a # refs) \<longrightarrow> deref h' b = deref h b"
  proof (intro allI impI)
    fix b assume "b \<notin> set (a # refs)"
    then have ba: "b \<noteq> a" and "b \<notin> set refs" by auto
    then have "deref h' b = deref (h[a := r]) b" using oth by blast
    then show "deref h' b = deref h b" using ba by (simp add: upd)
  qed
  from len c1 c2 c3 show ?case by simp
qed

lemma u_update_dns_zone_records_cases:
  assumes "u_update_dns_zone_records env dns_zone_id h refs t = (r, t')"
  shows "(\<exists>e. strip_links h refs = Inl e \<and> r = Inl e \<and> t' = t)
     \<or> (\<exists>h'. strip_links h refs = Inr h'
           \<and> t' = t @ [PatchZone dns_zone_id (map (deref h') refs)]
           \<and> (case r of
                 Inl e \<Rightarrow> \<forall>c tx u. patch_res env dns_zone_id (map (deref h') refs) \<noteq> Response c tx (Some u)
               | Inr (u, h'') \<Rightarrow> h'' = h'
                   \<and> (\<exists>c tx. patch_res env dns_zone_id (map (deref h') refs) = Response c tx (Some u))))"
  using assms
  by (auto simp: u_update_dns_zone_records_def split: sum.splits http_result.splits option.splits)

lemma strip_both:
  "strip_links [both_refs_record] [0]
     = Inr [fmupd ''configRef'' (JObj (fmap_of_list [(''id'', JInt 5)])) both_refs_record]"
  by code_simp

text \<open>
  Claim C4, as stated: the submission removes \<^verbatim>\<open>link\<close> from the \<^verbatim>\<open>configRef\<close> entry and
  from the \<^verbatim>\<open>targetGroupRef\<close> entry of every record, also of a record that has both. The
  loop takes \<^verbatim>\<open>configRef\<close> when the record has it and looks at \<^verbatim>\<open>targetGroupRef\<close> only
  otherwise: a record with both is submitted with the \<^verbatim>\<open>link\<close> of its \<^verbatim>\<open>targetGroupRef\<close>.
\<close>

theorem update_keeps_second_link:
  "snd (u_update_dns_zone_records example_env (JInt 7) [both_refs_record] [0] [])
     = [PatchZone (JInt 7)
          [fmupd ''configRef'' (JObj (fmap_of_list [(''id'', JInt 5)])) both_refs_record]]
   \<and> fmlookup (fmupd ''configRef'' (JObj (fmap_of_list [(''id'', JInt 5)])) both_refs_record)
         ''targetGroupRef''
       = Some (JObj (fmap_of_list [(''id'', JInt 2), (''link'', JStr ''/target/2'')]))"
proof
  show "snd (u_update_dns_zone_records example_env (JInt 7) [both_refs_record] [0] [])
     = [PatchZone (JInt 7)
          [fmupd ''configRef'' (JObj (fmap_of_list [(''id'', JInt 5)])) both_refs_record]]"
    unfolding u_update_dns_zone_records_def strip_both
    by (simp add: example_env_sel deref_def)
  show "fmlookup (fmupd ''configRef'' (JObj (fmap_of_list [(''id'', JInt 5)])) both_refs_record)
         ''targetGroupRef''
       = Some (JObj (fmap_of_list [(''id'', JInt 2), (''link'', JStr ''/target/2'')]))"
    by (simp add: both_refs_record_def)
qed

text \<open>
  Claim C4, amended. When \<^verbatim>\<open>_update_dns_zone_records\<close> submits a record set, the body of
  the request has one record for each record of the list, in the same order. A record
  with a \<^verbatim>\<open>configRef\<close> entry is submitted with that entry without its \<^verbatim>\<open>link\<close> and with
  every other field as it was; a record without \<^verbatim>\<open>configRef\<close> and with a
  \<^verbatim>\<open>targetGroupRef\<close> entry is submitted with that entry without its \<^verbatim>\<open>link\<close> and with
  every other field as it was; a record with neither is submitted as it was.
\<close>

theorem update_strips_one_link:
  assumes "distinct refs" and "valid_refs h refs"
    and "snd (u_update_dns_zone_records env dns_zone_id h refs t) \<noteq> t"
  shows "\<exists>body. snd (u_update_dns_zone_records env dns_zone_id h refs t) = t @ [PatchZone dns_zone_id body]
     \<and> length body = length refs
     \<and> (\<forall>i < length refs.
          (\<forall>v. fmlookup (deref h (refs ! i)) ''configRef'' = Some v \<longrightarrow>
             (\<exists>d. v = JObj d \<and> fmlookup (body ! i) ''configRef'' = Some (JObj (fmdrop ''link'' d)))
             \<and> (\<forall>k. k \<noteq> ''configRef'' \<longrightarrow> fmlookup (body ! i) k = fmlookup (deref h (refs ! i)) k))
        \<and> (\<forall>v. fmlookup (deref h (refs ! i)) ''configRef'' = None
               \<and> fmlookup (deref h (refs ! i)) ''targetGroupRef'' = Some v \<longrightarrow>
             (\<exists>d. v = JObj d \<and> fmlookup (body ! i) ''targetGroupRef'' = Some (JObj (fmdrop ''link'' d)))
             \<and> (\<forall>k. k \<noteq> ''targetGroupRef'' \<longrightarrow> fmlookup (body ! i) k = fmlookup (deref h (refs ! i)) k))
        \<and> (fmlookup (deref h (refs ! i)) ''configRef'' = None
               \<and> fmlookup (deref h (refs ! i)) ''targetGroupRef'' = None \<longrightarrow>
             body ! i = deref h (refs ! i)))"
proof -
  obtain r t' where rt: "u_update_dns_zone_records env dns_zone_id h refs t = (r, t')"
    by (cases "u_update_dns_zone_records env dns_zone_id h refs t")
  with assms(3) have ne: "t' \<noteq> t" by simp
  from u_update_dns_zone_records_cases[OF rt] ne
  obtain h' where s: "strip_links h refs = Inr h'"
    and t': "t' = t @ [PatchZone dns_zone_id (map (deref h') refs)]"
    by blast
  from strip_links_result[OF assms(1,2) s]
  have str: "\<forall>a \<in> set refs. strip_record (deref h a) = Inr (deref h' a)" by blast
  let ?body = "map (deref h') refs"
  have each: "\<forall>i < length refs.
          (\<forall>v. fmlookup (deref h (refs ! i)) ''configRef'' = Some v \<longrightarrow>
             (\<exists>d. v = JObj d \<and> fmlookup (?body ! i) ''configRef'' = Some (JObj (fmdrop ''link'' d)))
             \<and> (\<forall>k. k \<noteq> ''configRef'' \<longrightarrow> fmlookup (?body ! i) k = fmlookup (deref h (refs ! i)) k))
        \<and> (\<forall>v. fmlookup (deref h (refs ! i)) ''configRef'' = None
               \<and> fmlookup (deref h (refs ! i)) ''targetGroupRef'' = Some v \<longrightarrow>
             (\<exists>d. v = JObj d \<and> fmlookup (?body ! i) ''targetGroupRef'' = Some (JObj (fmdrop ''link'' d)))
             \<and> (\<forall>k. k \<noteq> ''targetGroupRef'' \<longrightarrow> fmlookup (?body ! i) k = fmlookup (deref h (refs ! i)) k))
        \<and> (fmlookup (deref h (refs ! i)) ''configRef'' = None
               \<and> fmlookup (deref h (refs ! i)) ''targetGroupRef'' = None \<longrightarrow>
             ?body ! i = deref h (refs ! i))"
  proof (intro allI impI)
    fix i assume i: "i < length refs"
    then have sr: "strip_record (deref h (refs ! i)) = Inr (deref h' (refs ! i))"
      using str by simp
    have b: "?body ! i = deref h' (refs ! i)" using i by simp
    have p1: "\<forall>v. fmlookup (deref h (refs ! i)) ''configRef'' = Some v \<longrightarrow>
             (\<exists>d. v = JObj d \<and> fmlookup (?body ! i) ''configRef'' = Some (JObj (fmdrop ''link'' d)))
             \<and> (\<forall>k. k \<noteq> ''configRef'' \<longrightarrow> fmlookup (?body ! i) k = fmlookup (deref h (refs ! i)) k)"
    proof (intro allI impI)
      fix v assume "fmlookup (deref h (refs ! i)) ''configRef'' = Some v"
      from strip_record_config[OF sr this]
      obtain d where "v = JObj d"
        "deref h' (refs ! i) = fmupd ''configRef'' (JObj (fmdrop ''link'' d)) (deref h (refs ! i))"
        by blast
      then show "(\<exists>d. v = JObj d \<and> fmlookup (?body ! i) ''configRef'' = Some (JObj (fmdrop ''link'' d)))
             \<and> (\<forall>k. k \<noteq> ''configRef'' \<longrightarrow> fmlookup (?body ! i) k = fmlookup (deref h (refs ! i)) k)"
        unfolding b by simp
    qed
    have p2: "\<forall>v. fmlookup (deref h (refs ! i)) ''configRef'' = None
               \<and> fmlookup (deref h (refs ! i)) ''targetGroupRef'' = Some v \<longrightarrow>
             (\<exists>d. v = JObj d \<and> fmlookup (?body ! i) ''targetGroupRef'' = Some (JObj (fmdrop ''link'' d)))
             \<and> (\<forall>k. k \<noteq> ''targetGroupRef'' \<longrightarrow> fmlookup (?body ! i) k = fmlookup (deref h (refs ! i)) k)"
    proof (intro allI impI)
      fix v assume "fmlookup (deref h (refs ! i)) ''configRef'' = None
               \<and> fmlookup (deref h (refs ! i)) ''targetGroupRef'' = Some v"
      then have n: "fmlookup (deref h (refs ! i)) ''configRef'' = None"
        and s: "fmlookup (deref h (refs ! i)) ''targetGroupRef'' = Some v" by simp_all
      from strip_record_target[OF sr n s]
      obtain d where "v = JObj d"
        "deref h' (refs ! i) = fmupd ''targetGroupRef'' (JObj (fmdrop ''link'' d)) (deref h (refs ! i))"
        by blast
      then show "(\<exists>d. v = JObj d \<and> fmlookup (?body ! i) ''targetGroupRef'' = Some (JObj (fmdrop ''link'' d)))
             \<and> (\<forall>k. k \<noteq> ''targetGroupRef'' \<longrightarrow> fmlookup (?body ! i) k = fmlookup (deref h (refs ! i)) k)"
        unfolding b by simp
    qed
    have p3: "fmlookup (deref h (refs ! i)) ''configRef'' = None
               \<and> fmlookup (deref h (refs ! i)) ''targetGroupRef'' = None \<longrightarrow>
             ?body ! i = deref h (refs ! i)"
      using strip_record_none[OF sr] b by simp
    from p1 p2 p3
    show "(\<forall>v. fmlookup (deref h (refs ! i)) ''configRef'' = Some v \<longrightarrow>
             (\<exists>d. v = JObj d \<and> fmlookup (?body ! i) ''configRef'' = Some (JObj (fmdrop ''link'' d)))
             \<and> (\<forall>k. k \<noteq> ''configRef'' \<longrightarrow> fmlookup (?body ! i) k = fmlookup (deref h (refs ! i)) k))
        \<and> (\<forall>v. fmlookup (deref h (refs ! i)) ''configRef'' = None
               \<and> fmlookup (deref h (refs ! i)) ''targetGroupRef'' = Some v \<longrightarrow>
             (\<exists>d. v = JObj d \<and> fmlookup (?body ! i) ''targetGroupRef'' = Some (JObj (fmdrop ''link'' d)))
             \<and> (\<forall>k. k \<noteq> ''targetGroupRef'' \<longrightarrow> fmlookup (?body ! i) k = fmlookup (deref h (refs ! i)) k))
        \<and> (fmlookup (deref h (refs ! i)) ''configRef'' = None
               \<and> fmlookup (deref h (refs ! i)) ''targetGroupRef'' = None \<longrightarrow>
             ?body ! i = deref h (refs ! i))"
      by (intro conjI)
  qed
  have "snd (u_update_dns_zone_records env dns_zone_id h refs t) = t @ [PatchZone dns_zone_id ?body]"
    using rt t' by simp
  moreover have "length ?body = length refs" by simp
  ultimately show ?thesis using each by (intro exI[of _ ?body] conjI)
qed

lemma strip_example:
  "strip_links example_records [0, 1] \<noteq> Inl e"
  by (simp add: example_records_def deref_def strip_record_def pop_link_def)

lemma update_example_submits: "snd (u_update_dns_zone_records example_env (JInt 7) example_records [0, 1] []) \<noteq> []"
  using strip_example
  by (cases "strip_links example_records [0, 1]")
    (simp_all add: u_update_dns_zone_records_def example_env_sel)

theorem update_strips_one_link_witness:
  "distinct [0, 1::nat] \<and> valid_refs example_records [0, 1]
   \<and> snd (u_update_dns_zone_records example_env (JInt 7) example_records [0, 1] []) \<noteq> []
   \<and> (\<exists>body. snd (u_update_dns_zone_records example_env (JInt 7) example_records [0, 1] [])
                 = [] @ [PatchZone (JInt 7) body]
          \<and> length body = length [0, 1::nat])"
proof -
  have d: "distinct [0, 1::nat]" by simp
  have v: "valid_refs example_records [0, 1]"
    by (simp add: valid_refs_def example_records_def)
  note n = update_example_submits
  from update_strips_one_link[OF d v n]
  obtain body where
    "snd (u_update_dns_zone_records example_env (JInt 7) example_records [0, 1] [])
       = [] @ [PatchZone (JInt 7) body]"
    and "length body = length [0, 1::nat]"
    by (elim exE conjE)
  then have "\<exists>body. snd (u_update_dns_zone_records example_env (JInt 7) example_records [0, 1] [])
                 = [] @ [PatchZone (JInt 7) body]
          \<and> length body = length [0, 1::nat]"
    by (intro exI conjI)
  with d v n show ?thesis by (intro conjI)
qed

section \<open>The traces of the workflows\<close>









lemma delete_try_success:
  assumes "zone_loop env delete_zone_error domain 0 [] = (Inr (zone, zid), tz)"
    and "zone_res env zid = Response c tx (Some fetched)"
    and "re_sub env (zone_suffix_pattern zone) [] record_name = Inr new_name"
    and "strip_links (fst (u_delete_txt_record new_name record_content fetched [0..<length fetched]))
           (snd (u_delete_txt_record new_name record_content fetched [0..<length fetched])) = Inr h'"
    and "patch_res env zid
           (map (deref h') (snd (u_delete_txt_record new_name record_content fetched [0..<length fetched])))
         = Response cp txp (Some u)"
    and "write_file env (path_join backup_dir (zone @ ''.'' @ strftime (now env) @ ''.after.json''))
         = None"
  shows "delete_txt_record env domain record_name record_content [] =
     (Inr (),
      tz @ [GetZone zid,
            PatchZone zid (map (deref h')
              (snd (u_delete_txt_record new_name record_content fetched [0..<length fetched]))),
            WriteFile (path_join backup_dir (zone @ ''.'' @ strftime (now env) @ ''.after.json''))
              zid (map (deref h') [0..<length fetched])])"
  using assms
  by (simp add: delete_txt_record_def delete_txt_record_try_def bind_io_def lift_io_def
      u_get_dns_zone_records_def u_update_dns_zone_records_def u_create_backup_file_def
      backup_file_name_def backup_dir_def Let_def case_prod_beta)

lemma remove_env_sel:
  "customer_id remove_env = ''42''"
  "zone_list_res remove_env = (\<lambda>k. Response 200 ''OK'' (Some example_zones))"
  "zone_res remove_env = (\<lambda>dns_zone_id. Response 200 ''OK'' (Some published_records))"
  "patch_res remove_env = (\<lambda>dns_zone_id body. Response 200 ''OK'' (Some body))"
  "now remove_env = example_now"
  "write_file remove_env = (\<lambda>file_path. None)"
  "re_sub remove_env = plain_re_sub"
  by (simp_all add: remove_env_def example_env_def)

lemma example_zone_lookup:
  "find_dns_zone_id example_zones ''www.example.com'' = None"
  "find_dns_zone_id example_zones ''example.com'' = Some (JInt 7)"
  by (simp_all add: find_dns_zone_id_def example_zones_def)

lemma example_search:
  "re_search 0 ''www.example.com'' = Some ''www.example.com''"
  "re_search (Suc 0) ''www.example.com'' = Some ''example.com''"
  by (simp_all add: LF_def)

lemma remove_env_attempts:
  "zone_attempt remove_env ''www.example.com'' 0 t
     = (Inl (zone_lookup_error ''www.example.com''), t @ [GetZoneList])"
  "zone_attempt remove_env ''www.example.com'' (Suc 0) t
     = (Inr (''example.com'', JInt 7), t @ [GetZoneList])"
  unfolding zone_attempt_def example_search
  by (simp_all add: u_get_dns_zone_id_def remove_env_sel example_zone_lookup zone_lookup_error_def)

lemma remove_env_zone_loop:
  "zone_loop remove_env on_fail ''www.example.com'' 0 []
     = (Inr (''example.com'', JInt 7), [GetZoneList, GetZoneList])"
  by (subst zone_loop.simps, simp add: remove_env_attempts,
      subst zone_loop.simps, simp add: remove_env_attempts)


lemma remove_env_strip:
  "strip_links
     (fst (u_delete_txt_record ''_acme-challenge.www'' ''abc123'' published_records
             [0..<length published_records]))
     (snd (u_delete_txt_record ''_acme-challenge.www'' ''abc123'' published_records
             [0..<length published_records]))
   = Inr (stripped_published @ published_records)"
  by code_simp

lemma stripped_published_differs: "stripped_published \<noteq> published_records"
  by code_simp

lemma remove_env_run:
  "delete_txt_record remove_env ''www.example.com'' ''_acme-challenge.www.example.com'' ''abc123'' []
   = (Inr (),
      [GetZoneList, GetZoneList, GetZone (JInt 7),
       PatchZone (JInt 7) (map (deref (stripped_published @ published_records))
         (snd (u_delete_txt_record ''_acme-challenge.www'' ''abc123'' published_records
                 [0..<length published_records]))),
       WriteFile (path_join backup_dir (''example.com'' @ ''.'' @ strftime (now remove_env) @ ''.after.json''))
         (JInt 7) (map (deref (stripped_published @ published_records)) [0..<length published_records])])"
  using delete_try_success[where env = remove_env and domain = "''www.example.com''"
      and record_name = "''_acme-challenge.www.example.com''" and record_content = "''abc123''"
      and zone = "''example.com''" and zid = "JInt 7" and tz = "[GetZoneList, GetZoneList]"
      and fetched = published_records and new_name = "''_acme-challenge.www''"
      and h' = "stripped_published @ published_records" and c = 200 and tx = "''OK''"
      and cp = 200 and txp = "''OK''", OF remove_env_zone_loop _ _ remove_env_strip]
  by (simp add: remove_env_sel example_re_sub)

lemma published_snapshot:
  "map (deref (stripped_published @ published_records)) [0..<length published_records]
     = stripped_published"
  by code_simp


text \<open>
  Claim C9, at a failing input. \<^verbatim>\<open>_delete_txt_record\<close> makes a deep copy of the fetched
  list and then discards it: the list it returns holds the fetched dictionaries
  themselves (\<^verbatim>\<open>_add_txt_record\<close>, beside it, returns its copy). The replacement takes
  the \<^verbatim>\<open>link\<close> away from them in place, and the file tagged \<^verbatim>\<open>after\<close> is written from
  the fetched list afterwards. In the run below the provider answers the request for the
  zone with \<open>published_records\<close>, whose second record has a \<^verbatim>\<open>configRef\<close> with a
  \<^verbatim>\<open>link\<close>; the one file written holds that record without the \<^verbatim>\<open>link\<close>, so it is not
  the record set as fetched.
\<close>

theorem after_snapshot_loses_link:
  "zone_res remove_env (JInt 7) = Response 200 ''OK'' (Some published_records)
   \<and> written_snapshots
       (snd (delete_txt_record remove_env ''www.example.com''
               ''_acme-challenge.www.example.com'' ''abc123'' []))
       = [stripped_published]
   \<and> stripped_published \<noteq> published_records"
  by (simp add: remove_env_run written_snapshots_def published_snapshot
      stripped_published_differs remove_env_sel)










section \<open>Properties of the propagation waiter\<close>

declare poll.simps [simp del]

lemma wait_loop_poll:
  "wait_loop env record_name record_data (int (Suc n)) txt_records t
     = Some (poll env record_name record_data n txt_records t)"
proof (induction n arbitrary: txt_records t)
  case 0
  show ?case
    by (subst wait_loop.simps, subst poll.simps) (simp split: prod.splits sum.splits)
next
  case (Suc n)
  have c: "int (Suc (Suc n)) - 1 = int (Suc n)" by simp
  show ?case
    by (subst wait_loop.simps, subst poll.simps)
      (simp only: c Suc.IH, simp split: prod.splits sum.splits)
qed

lemma u_wait_for_record_propagation_poll:
  "u_wait_for_record_propagation env record_name record_data t
     = Some (case query_txt env record_name t of
               (Inl e, t') \<Rightarrow> (Inl e, t')
             | (Inr txt_records, t') \<Rightarrow> poll env record_name record_data 14 txt_records t')"
proof -
  have "\<And>txt_records t'. wait_loop env record_name record_data 15 txt_records t'
      = Some (poll env record_name record_data 14 txt_records t')"
    using wait_loop_poll[of env record_name record_data 14] by simp
  then show ?thesis
    by (simp add: u_wait_for_record_propagation_def split: prod.splits sum.splits)
qed

lemma count_dig_append:
  "count_dig (t @ [Dig n]) = Suc (count_dig t)"
  "count_dig (t @ [Sleep s]) = count_dig t"
  "count_dig (t @ t') = count_dig t + count_dig t'"
  by (simp_all add: count_dig_def)

lemma query_txt_trace: "snd (query_txt env record_name t) = t @ [Dig record_name]"
  by (simp add: query_txt_def split: sum.splits)

lemma query_txt_has:
  "answer_has env record_name record_data (count_dig t) \<Longrightarrow>
   \<exists>ans. query_txt env record_name t = (Inr ans, t @ [Dig record_name]) \<and> record_data \<in> set ans"
  by (auto simp: answer_has_def query_txt_def split: sum.splits)

lemma query_txt_lacks:
  "answer_lacks env record_name record_data (count_dig t) \<Longrightarrow>
   \<exists>ans. query_txt env record_name t = (Inr ans, t @ [Dig record_name]) \<and> record_data \<notin> set ans"
  by (auto simp: answer_lacks_def query_txt_def split: sum.splits)

lemma query_txt_Inr:
  "query_txt env record_name t = (Inr ans, t') \<Longrightarrow>
   record_data \<in> set ans \<longleftrightarrow> answer_has env record_name record_data (count_dig t)"
  by (auto simp: answer_has_def query_txt_def split: sum.splits)

lemma poll_success:
  assumes "\<forall>j<k. answer_lacks env record_name record_data (count_dig t + j)"
    and "answer_has env record_name record_data (count_dig t + k)"
    and "k < n" and "record_data \<notin> set ans"
  shows "poll env record_name record_data n ans t
     = (Inr (), t @ concat (replicate (Suc k) [Dig record_name, Sleep 60]))"
  using assms
proof (induction k arbitrary: n ans t)
  case 0
  from 0(3) obtain m where n: "n = Suc m" by (cases n) auto
  from 0(2) have "answer_has env record_name record_data (count_dig t)" by simp
  from query_txt_has[OF this] obtain ans' where
    q: "query_txt env record_name t = (Inr ans', t @ [Dig record_name])" and i: "record_data \<in> set ans'"
    by blast
  have "poll env record_name record_data m ans' (t @ [Dig record_name, Sleep 60])
      = (Inr (), t @ [Dig record_name, Sleep 60])"
    using i by (subst poll.simps) simp
  then show ?case using 0(4) q n by (subst poll.simps) simp
next
  case (Suc k)
  from Suc.prems(3) obtain m where n: "n = Suc m" and km: "k < m" by (cases n) auto
  from Suc.prems(1) have "answer_lacks env record_name record_data (count_dig t)" by force
  from query_txt_lacks[OF this] obtain ans' where
    q: "query_txt env record_name t = (Inr ans', t @ [Dig record_name])" and i: "record_data \<notin> set ans'"
    by blast
  let ?t = "t @ [Dig record_name, Sleep 60]"
  have c: "count_dig ?t = Suc (count_dig t)" by (simp add: count_dig_def)
  have l: "\<forall>j<k. answer_lacks env record_name record_data (count_dig ?t + j)"
  proof (intro allI impI)
    fix j assume "j < k"
    then have "Suc j < Suc k" by simp
    with Suc.prems(1) have "answer_lacks env record_name record_data (count_dig t + Suc j)" by blast
    then show "answer_lacks env record_name record_data (count_dig ?t + j)" by (simp add: c)
  qed
  have h: "answer_has env record_name record_data (count_dig ?t + k)"
    using Suc.prems(2) by (simp add: c)
  from Suc.IH[OF l h km i]
  have "poll env record_name record_data m ans' ?t
      = (Inr (), ?t @ concat (replicate (Suc k) [Dig record_name, Sleep 60]))" .
  then show ?case using Suc.prems(4) q n by (subst poll.simps) simp
qed

lemma poll_timeout:
  assumes "\<forall>j<n. answer_lacks env record_name record_data (count_dig t + j)"
    and "dig env record_name (count_dig t + n) = Inr lines"
    and "record_data \<notin> set ans"
  shows "poll env record_name record_data n ans t
     = (Inl (propagation_timeout record_name),
        t @ concat (replicate n [Dig record_name, Sleep 60]) @ [Dig record_name])"
  using assms
proof (induction n arbitrary: ans t)
  case 0
  then show ?case by (subst poll.simps) (simp add: query_txt_def)
next
  case (Suc n)
  from Suc.prems(1) have "answer_lacks env record_name record_data (count_dig t)" by force
  from query_txt_lacks[OF this] obtain ans' where
    q: "query_txt env record_name t = (Inr ans', t @ [Dig record_name])" and i: "record_data \<notin> set ans'"
    by blast
  let ?t = "t @ [Dig record_name, Sleep 60]"
  have c: "count_dig ?t = Suc (count_dig t)" by (simp add: count_dig_def)
  have l: "\<forall>j<n. answer_lacks env record_name record_data (count_dig ?t + j)"
  proof (intro allI impI)
    fix j assume "j < n"
    then have "Suc j < Suc n" by simp
    with Suc.prems(1) have "answer_lacks env record_name record_data (count_dig t + Suc j)" by blast
    then show "answer_lacks env record_name record_data (count_dig ?t + j)" by (simp add: c)
  qed
  have d: "dig env record_name (count_dig ?t + n) = Inr lines"
    using Suc.prems(2) by (simp add: c)
  from Suc.IH[OF l d i]
  have "poll env record_name record_data n ans' ?t
      = (Inl (propagation_timeout record_name),
         ?t @ concat (replicate n [Dig record_name, Sleep 60]) @ [Dig record_name])" .
  then show ?case using Suc.prems(3) q by (subst poll.simps) simp
qed

lemma poll_success_only:
  assumes "fst (poll env record_name record_data n ans t) = Inr ()"
  shows "record_data \<in> set ans
     \<or> (\<exists>k<n. answer_has env record_name record_data (count_dig t + k))"
  using assms
proof (induction n arbitrary: ans t)
  case 0
  then show ?case
    by (subst (asm) poll.simps) (auto split: if_splits prod.splits sum.splits)
next
  case (Suc n)
  show ?case
  proof (cases "record_data \<in> set ans")
    case True
    then show ?thesis by simp
  next
    case False
    obtain r t' where q: "query_txt env record_name t = (r, t')"
      by (cases "query_txt env record_name t")
    have t': "t' = t @ [Dig record_name]" using query_txt_trace[of env record_name t] q by simp
    show ?thesis
    proof (cases r)
      case (Inl e)
      with Suc.prems False q show ?thesis by (subst (asm) poll.simps) simp
    next
      case (Inr ans')
      with Suc.prems False q
      have p: "fst (poll env record_name record_data n ans' (t' @ [Sleep 60])) = Inr ()"
        by (subst (asm) poll.simps) simp
      have c: "count_dig (t' @ [Sleep 60]) = Suc (count_dig t)" by (simp add: t' count_dig_def)
      from Suc.IH[OF p] consider "record_data \<in> set ans'"
        | k where "k < n" "answer_has env record_name record_data (Suc (count_dig t) + k)"
        unfolding c by blast
      then show ?thesis
      proof cases
        case 1
        with query_txt_Inr[OF q[unfolded Inr], of record_data]
        have "answer_has env record_name record_data (count_dig t + 0)" by simp
        then show ?thesis by blast
      next
        case 2
        then have "Suc k < Suc n" "answer_has env record_name record_data (count_dig t + Suc k)"
          by simp_all
        then show ?thesis by blast
      qed
    qed
  qed
qed

lemma poll_trace:
  "\<exists>ds. snd (poll env record_name record_data n ans t) = t @ ds
     \<and> set ds \<subseteq> {Dig record_name, Sleep 60}
     \<and> count_dig ds \<le> Suc n \<and> count_list ds (Sleep 60) \<le> n"
proof (induction n arbitrary: ans t)
  case 0
  have "snd (poll env record_name record_data 0 ans t) = t @ []
      \<or> snd (poll env record_name record_data 0 ans t) = t @ [Dig record_name]"
    using query_txt_trace[of env record_name t]
    by (subst poll.simps, subst poll.simps) (auto split: prod.splits sum.splits)
  then show ?case
  proof
    assume "snd (poll env record_name record_data 0 ans t) = t @ []"
    then show ?thesis by (intro exI[of _ "[]"]) (simp add: count_dig_def)
  next
    assume "snd (poll env record_name record_data 0 ans t) = t @ [Dig record_name]"
    then show ?thesis by (intro exI[of _ "[Dig record_name]"]) (simp add: count_dig_def)
  qed
next
  case (Suc n)
  obtain r t' where q: "query_txt env record_name t = (r, t')"
    by (cases "query_txt env record_name t")
  have t': "t' = t @ [Dig record_name]" using query_txt_trace[of env record_name t] q by simp
  from Suc.IH[of _ "t' @ [Sleep 60]"]
  have ih: "\<And>ans'. \<exists>ds. snd (poll env record_name record_data n ans' (t' @ [Sleep 60]))
        = (t' @ [Sleep 60]) @ ds
     \<and> set ds \<subseteq> {Dig record_name, Sleep 60}
     \<and> count_dig ds \<le> Suc n \<and> count_list ds (Sleep 60) \<le> n" .
  consider (found) "record_data \<in> set ans"
    | (failed) e where "record_data \<notin> set ans" "r = Inl e"
    | (again) ans' where "record_data \<notin> set ans" "r = Inr ans'"
    by (cases r) auto
  then show ?case
  proof cases
    case found
    then have "snd (poll env record_name record_data (Suc n) ans t) = t @ []"
      by (subst poll.simps) simp
    then show ?thesis by (intro exI[of _ "[]"]) (simp add: count_dig_def)
  next
    case failed
    then have "snd (poll env record_name record_data (Suc n) ans t) = t @ [Dig record_name]"
      using q t' by (subst poll.simps) simp
    then show ?thesis by (intro exI[of _ "[Dig record_name]"]) (simp add: count_dig_def)
  next
    case again
    from ih[of ans'] obtain ds where
      ds: "snd (poll env record_name record_data n ans' (t' @ [Sleep 60])) = (t' @ [Sleep 60]) @ ds"
        "set ds \<subseteq> {Dig record_name, Sleep 60}"
        "count_dig ds \<le> Suc n" "count_list ds (Sleep 60) \<le> n"
      by blast
    have "snd (poll env record_name record_data (Suc n) ans t)
        = t @ ([Dig record_name, Sleep 60] @ ds)"
      using again q ds(1) t' by (subst poll.simps) simp
    moreover have "set ([Dig record_name, Sleep 60] @ ds) \<subseteq> {Dig record_name, Sleep 60}"
      using ds(2) by auto
    moreover have "count_dig ([Dig record_name, Sleep 60] @ ds) \<le> Suc (Suc n)"
      using ds(3) by (simp add: count_dig_def)
    moreover have "count_list ([Dig record_name, Sleep 60] @ ds) (Sleep 60) \<le> Suc n"
      using ds(4) by simp
    ultimately show ?thesis by blast
  qed
qed

text \<open>
  The waiter as a whole: it returns, and this is what it has done then, in terms of the
  answers of the resolver from the first run of \<^verbatim>\<open>dig\<close> on.
\<close>

lemma wait_outcome:
  "\<exists>r ds. u_wait_for_record_propagation env record_name record_data t = Some (r, t @ ds)
     \<and> set ds \<subseteq> {Dig record_name, Sleep 60}
     \<and> count_dig ds \<le> 16 \<and> count_list ds (Sleep 60) \<le> 14
     \<and> (r = Inr () \<longrightarrow> (\<exists>m<15. answer_has env record_name record_data (count_dig t + m)))
     \<and> (\<forall>m<15. (\<forall>j<m. answer_lacks env record_name record_data (count_dig t + j))
                \<and> answer_has env record_name record_data (count_dig t + m)
            \<longrightarrow> r = Inr () \<and> ds = Dig record_name # concat (replicate m [Dig record_name, Sleep 60]))
     \<and> ((\<forall>j<15. answer_lacks env record_name record_data (count_dig t + j))
          \<and> (\<exists>lines. dig env record_name (count_dig t + 15) = Inr lines)
            \<longrightarrow> r = Inl (propagation_timeout record_name)
              \<and> ds = Dig record_name # concat (replicate 14 [Dig record_name, Sleep 60])
                       @ [Dig record_name])"
proof -
  let ?has = "answer_has env record_name record_data"
  let ?lacks = "answer_lacks env record_name record_data"
  let ?c = "count_dig t"
  let ?t = "t @ [Dig record_name]"
  have ct: "count_dig ?t = Suc ?c" by (simp add: count_dig_def)
  obtain q t' where q: "query_txt env record_name t = (q, t')"
    by (cases "query_txt env record_name t")
  have t': "t' = ?t" using query_txt_trace[of env record_name t] q by simp
  have hl: "\<not> (?has k \<and> ?lacks k)" for k
    by (auto simp: answer_has_def answer_lacks_def split: sum.splits)
  show ?thesis
  proof (cases q)
    case (Inl e)
    then have run: "u_wait_for_record_propagation env record_name record_data t
        = Some (Inl e, t @ [Dig record_name])"
      using q t' by (simp add: u_wait_for_record_propagation_poll)
    have nh: "\<not> ?has ?c" "\<not> ?lacks ?c"
      using q Inl by (auto simp: answer_has_def answer_lacks_def query_txt_def split: sum.splits)
    have a: "\<forall>m<15. (\<forall>j<m. ?lacks (?c + j)) \<and> ?has (?c + m)
            \<longrightarrow> Inl e = Inr () \<and> [Dig record_name]
                  = Dig record_name # concat (replicate m [Dig record_name, Sleep 60])"
    proof (intro allI impI)
      fix m assume "m < (15::nat)" and h: "(\<forall>j<m. ?lacks (?c + j)) \<and> ?has (?c + m)"
      show "Inl e = Inr () \<and> [Dig record_name]
                  = Dig record_name # concat (replicate m [Dig record_name, Sleep 60])"
      proof (cases m)
        case 0
        with h nh show ?thesis by simp
      next
        case (Suc k)
        with h have "?lacks (?c + 0)" by blast
        with nh show ?thesis by simp
      qed
    qed
    have b: "(\<forall>j<15. ?lacks (?c + j)) \<and> (\<exists>lines. dig env record_name (?c + 15) = Inr lines)
            \<longrightarrow> Inl e = Inl (propagation_timeout record_name)
              \<and> [Dig record_name] = Dig record_name # concat (replicate 14 [Dig record_name, Sleep 60])
                       @ [Dig record_name]"
    proof
      assume "(\<forall>j<15. ?lacks (?c + j)) \<and> (\<exists>lines. dig env record_name (?c + 15) = Inr lines)"
      then have "(0::nat) < 15 \<longrightarrow> ?lacks (?c + 0)" by blast
      then have "?lacks (?c + 0)" by simp
      with nh show "Inl e = Inl (propagation_timeout record_name)
              \<and> [Dig record_name] = Dig record_name # concat (replicate 14 [Dig record_name, Sleep 60])
                       @ [Dig record_name]" by simp
    qed
    show ?thesis
      by (rule exI[of _ "Inl e"], rule exI[of _ "[Dig record_name]"])
        (use run a b in \<open>simp add: count_dig_def\<close>)
  next
    case (Inr ans)
    let ?p = "poll env record_name record_data 14 ans ?t"
    have run: "u_wait_for_record_propagation env record_name record_data t = Some ?p"
      using q t' Inr by (simp add: u_wait_for_record_propagation_poll)
    note q' = q[unfolded Inr t']
    have first: "record_data \<in> set ans \<longleftrightarrow> ?has ?c"
      using query_txt_Inr[OF q'] .
    have lacks0: "record_data \<notin> set ans \<Longrightarrow> ?lacks ?c"
      using q' by (auto simp: answer_lacks_def query_txt_def split: sum.splits)
    from poll_trace[of env record_name record_data 14 ans ?t]
    obtain ds where ds: "snd ?p = ?t @ ds" "set ds \<subseteq> {Dig record_name, Sleep 60}"
      "count_dig ds \<le> 15" "count_list ds (Sleep 60) \<le> 14"
      by auto
    let ?r = "fst ?p"
    let ?ds = "Dig record_name # ds"
    have p: "?p = (?r, t @ ?ds)" using ds(1) by (simp add: prod_eq_iff)
    have c1: "set ?ds \<subseteq> {Dig record_name, Sleep 60}" using ds(2) by simp
    have c2: "count_dig ?ds \<le> 16" using ds(3) by (simp add: count_dig_def)
    have c3: "count_list ?ds (Sleep 60) \<le> 14" using ds(4) by simp
    have c4: "?r = Inr () \<longrightarrow> (\<exists>m<15. ?has (?c + m))"
    proof
      assume "?r = Inr ()"
      from poll_success_only[OF this] consider "record_data \<in> set ans"
        | k where "k < 14" "?has (count_dig ?t + k)" by blast
      then show "\<exists>m<15. ?has (?c + m)"
      proof cases
        case 1
        with first have "?has (?c + 0)" by simp
        then show ?thesis by (intro exI[of _ 0]) simp
      next
        case 2
        then have "Suc k < 15" "?has (?c + Suc k)" by (simp_all add: ct)
        then show ?thesis by blast
      qed
    qed
    have c5: "\<forall>m<15. (\<forall>j<m. ?lacks (?c + j)) \<and> ?has (?c + m)
            \<longrightarrow> ?r = Inr () \<and> ?ds = Dig record_name # concat (replicate m [Dig record_name, Sleep 60])"
    proof (intro allI impI)
      fix m assume m: "m < (15::nat)" and h: "(\<forall>j<m. ?lacks (?c + j)) \<and> ?has (?c + m)"
      show "?r = Inr () \<and> ?ds = Dig record_name # concat (replicate m [Dig record_name, Sleep 60])"
      proof (cases m)
        case 0
        with h first have "record_data \<in> set ans" by simp
        then have "?p = (Inr (), ?t)" by (subst poll.simps) simp
        with p 0 show ?thesis by simp
      next
        case (Suc k)
        with h have "?lacks (?c + 0)" by blast
        with hl[of ?c] first have na: "record_data \<notin> set ans" by auto
        have l: "\<forall>j<k. ?lacks (count_dig ?t + j)"
        proof (intro allI impI)
          fix j assume "j < k"
          then have "Suc j < m" using Suc by simp
          with h have "?lacks (?c + Suc j)" by blast
          then show "?lacks (count_dig ?t + j)" by (simp add: ct)
        qed
        have hk: "?has (count_dig ?t + k)" using h Suc by (simp add: ct)
        have "k < 14" using m Suc by simp
        from poll_success[OF l hk this na]
        have "?p = (Inr (), ?t @ concat (replicate (Suc k) [Dig record_name, Sleep 60]))" .
        with p Suc show ?thesis by simp
      qed
    qed
    have c6: "(\<forall>j<15. ?lacks (?c + j)) \<and> (\<exists>lines. dig env record_name (?c + 15) = Inr lines)
            \<longrightarrow> ?r = Inl (propagation_timeout record_name)
              \<and> ?ds = Dig record_name # concat (replicate 14 [Dig record_name, Sleep 60])
                       @ [Dig record_name]"
    proof
      assume h: "(\<forall>j<15. ?lacks (?c + j)) \<and> (\<exists>lines. dig env record_name (?c + 15) = Inr lines)"
      then have "(0::nat) < 15 \<longrightarrow> ?lacks (?c + 0)" by blast
      then have "?lacks (?c + 0)" by simp
      with hl[of ?c] first have na: "record_data \<notin> set ans" by auto
      have l: "\<forall>j<14. ?lacks (count_dig ?t + j)"
      proof (intro allI impI)
        fix j :: nat assume "j < 14"
        then have "Suc j < 15" by simp
        with h have "?lacks (?c + Suc j)" by blast
        then show "?lacks (count_dig ?t + j)" by (simp add: ct)
      qed
      from h obtain lines where dl: "dig env record_name (?c + 15) = Inr lines" by blast
      have e: "count_dig ?t + 14 = ?c + 15" by (simp add: ct)
      have d: "dig env record_name (count_dig ?t + 14) = Inr lines" unfolding e by (rule dl)
      from poll_timeout[OF l d na]
      have "?p = (Inl (propagation_timeout record_name),
         ?t @ concat (replicate 14 [Dig record_name, Sleep 60]) @ [Dig record_name])" .
      with p show "?r = Inl (propagation_timeout record_name)
              \<and> ?ds = Dig record_name # concat (replicate 14 [Dig record_name, Sleep 60])
                       @ [Dig record_name]" by simp
    qed
    have r: "u_wait_for_record_propagation env record_name record_data t = Some (?r, t @ ?ds)"
      using run p by simp
    from r c1 c2 c3 c4 c5 c6 show ?thesis
      by (intro exI[of _ ?r] exI[of _ ?ds] conjI)
  qed
qed

lemma example_answers:
  "answer_lacks example_env ''_acme-challenge.www.example.com'' ''abc123'' 0"
  "answer_lacks example_env ''_acme-challenge.www.example.com'' ''abc123'' 1"
  "answer_has example_env ''_acme-challenge.www.example.com'' ''abc123'' 2"
  by (simp_all add: answer_lacks_def answer_has_def example_env_sel)


lemma late_env_sel:
  "dig late_env = (\<lambda>record_name k. Inr (if k < 15 then [] else [CHR 0x22 # ''abc123'' @ [CHR 0x22]]))"
  by (simp add: late_env_def example_env_def)

text \<open>
  Claim C5, as stated: a budget of 15 attempts, 60 seconds apart, and the failure only
  when the value has not appeared among the returned values. In the environment below
  the resolver shows the value in its 16th answer: \<^verbatim>\<open>_wait_for_record_propagation\<close> runs
  \<^verbatim>\<open>dig\<close> 16 times, the first two runs with no sleep between them, sleeps 14 times and
  raises the error of the exhausted retries although the last answer it fetched holds
  the value.
\<close>

theorem late_answer_counterexample:
  "answer_has late_env ''_acme-challenge.www.example.com'' ''abc123'' 15
   \<and> u_wait_for_record_propagation late_env ''_acme-challenge.www.example.com'' ''abc123'' []
       = Some (Inl (PluginError
                 [Lit ''Maximum amount of retries reached while trying to get new TXT record '',
                  Lit ''_acme-challenge.www.example.com'', Lit ''.'', NL]),
               Dig ''_acme-challenge.www.example.com''
               # concat (replicate 14 [Dig ''_acme-challenge.www.example.com'', Sleep 60])
               @ [Dig ''_acme-challenge.www.example.com''])
   \<and> count_dig (Dig ''_acme-challenge.www.example.com''
               # concat (replicate 14 [Dig ''_acme-challenge.www.example.com'', Sleep 60])
               @ [Dig ''_acme-challenge.www.example.com'']) = 16
   \<and> count_list (Dig ''_acme-challenge.www.example.com''
               # concat (replicate 14 [Dig ''_acme-challenge.www.example.com'', Sleep 60])
               @ [Dig ''_acme-challenge.www.example.com'']) (Sleep 60) = 14"
proof -
  let ?n = "''_acme-challenge.www.example.com''"
  let ?d = "''abc123''"
  let ?ds = "Dig ?n # concat (replicate 14 [Dig ?n, Sleep 60]) @ [Dig ?n]"
  have h: "answer_has late_env ?n ?d 15"
    by (simp add: answer_has_def late_env_sel)
  have c: "count_dig [] = 0" by (simp add: count_dig_def)
  have l: "\<forall>j<15. answer_lacks late_env ?n ?d (count_dig [] + j)"
    by (simp add: answer_lacks_def late_env_sel c)
  have g: "\<exists>lines. dig late_env ?n (count_dig [] + 15) = Inr lines"
    by (simp add: late_env_sel)
  from wait_outcome[of late_env ?n ?d "[]"]
  obtain r ds where run: "u_wait_for_record_propagation late_env ?n ?d [] = Some (r, [] @ ds)"
    and out: "(\<forall>j<15. answer_lacks late_env ?n ?d (count_dig [] + j))
          \<and> (\<exists>lines. dig late_env ?n (count_dig [] + 15) = Inr lines)
            \<longrightarrow> r = Inl (propagation_timeout ?n) \<and> ds = ?ds"
    by (elim exE conjE)
  from out l g have "r = Inl (propagation_timeout ?n)" and "ds = ?ds" by blast+
  with run have r: "u_wait_for_record_propagation late_env ?n ?d []
      = Some (Inl (PluginError
                 [Lit ''Maximum amount of retries reached while trying to get new TXT record '',
                  Lit ?n, Lit ''.'', NL]), ?ds)"
    by (simp add: propagation_timeout_def)
  have n1: "count_dig ?ds = 16" by code_simp
  have n2: "count_list ?ds (Sleep 60) = 14" by code_simp
  from h r n1 n2 show ?thesis by (intro conjI)
qed

text \<open>
  Claim C5, amended. \<^verbatim>\<open>_wait_for_record_propagation\<close> always returns or raises: it runs
  \<^verbatim>\<open>dig\<close> at most 16 times (once before the loop and once in each of at most 15 passes)
  and sleeps at most 14 times, 60 seconds each, after each pass but the last, which is at
  most 14 minutes. It returns as soon as an answer that it examines holds the expected
  value, which is one of the first 15 answers; when the first 15 answers lack the value
  and the last run of \<^verbatim>\<open>dig\<close> succeeds, it raises the \<^verbatim>\<open>PluginError\<close> whose text is
  \<^verbatim>\<open>Maximum amount of retries reached while trying to get new TXT record\<close>, the record
  name, a full stop and a line feed.
\<close>

theorem propagation_wait_bounded:
  "\<exists>r ds. u_wait_for_record_propagation env record_name record_data t = Some (r, t @ ds)
     \<and> set ds \<subseteq> {Dig record_name, Sleep 60}
     \<and> count_dig ds \<le> 16 \<and> count_list ds (Sleep 60) \<le> 14
     \<and> (r = Inr () \<longrightarrow> (\<exists>m<15. answer_has env record_name record_data (count_dig t + m)))
     \<and> (\<forall>m<15. (\<forall>j<m. answer_lacks env record_name record_data (count_dig t + j))
                \<and> answer_has env record_name record_data (count_dig t + m)
            \<longrightarrow> r = Inr () \<and> ds = Dig record_name # concat (replicate m [Dig record_name, Sleep 60]))
     \<and> ((\<forall>j<15. answer_lacks env record_name record_data (count_dig t + j))
          \<and> (\<exists>lines. dig env record_name (count_dig t + 15) = Inr lines)
            \<longrightarrow> r = Inl (PluginError
                        [Lit ''Maximum amount of retries reached while trying to get new TXT record '',
                         Lit record_name, Lit ''.'', NL])
              \<and> ds = Dig record_name # concat (replicate 14 [Dig record_name, Sleep 60])
                       @ [Dig record_name])"
  using wait_outcome[of env record_name record_data t]
  unfolding propagation_timeout_def .

theorem propagation_wait_bounded_witness:
  "answer_lacks example_env ''_acme-challenge.www.example.com'' ''abc123'' 0
   \<and> answer_lacks example_env ''_acme-challenge.www.example.com'' ''abc123'' 1
   \<and> answer_has example_env ''_acme-challenge.www.example.com'' ''abc123'' 2
   \<and> u_wait_for_record_propagation example_env ''_acme-challenge.www.example.com'' ''abc123'' []
       = Some (Inr (),
               [Dig ''_acme-challenge.www.example.com'',
                Dig ''_acme-challenge.www.example.com'', Sleep 60,
                Dig ''_acme-challenge.www.example.com'', Sleep 60])"
proof -
  let ?n = "''_acme-challenge.www.example.com''"
  let ?d = "''abc123''"
  from propagation_wait_bounded[of example_env ?n ?d "[]"]
  obtain r ds where run: "u_wait_for_record_propagation example_env ?n ?d [] = Some (r, [] @ ds)"
    and found: "\<forall>m<15. (\<forall>j<m. answer_lacks example_env ?n ?d (count_dig [] + j))
                \<and> answer_has example_env ?n ?d (count_dig [] + m)
            \<longrightarrow> r = Inr () \<and> ds = Dig ?n # concat (replicate m [Dig ?n, Sleep 60])"
    by (elim exE conjE)
  have c: "count_dig [] = 0" by (simp add: count_dig_def)
  have l: "\<forall>j<2. answer_lacks example_env ?n ?d (count_dig [] + j)"
  proof (intro allI impI)
    fix j :: nat assume "j < 2"
    then have "count_dig [] + j = 0 \<or> count_dig [] + j = 1" unfolding c by arith
    then show "answer_lacks example_env ?n ?d (count_dig [] + j)"
      using example_answers(1,2) by (elim disjE) simp_all
  qed
  have c2: "count_dig [] + 2 = (2::nat)" by (simp add: c)
  have h: "answer_has example_env ?n ?d (count_dig [] + 2)"
    unfolding c2 by (rule example_answers(3))
  have "(2::nat) < 15" by simp
  with found l h have "r = Inr () \<and> ds = Dig ?n # concat (replicate 2 [Dig ?n, Sleep 60])"
    by blast
  then have "r = Inr ()" and "ds = [Dig ?n, Dig ?n, Sleep 60, Dig ?n, Sleep 60]"
    by (simp_all add: numeral_2_eq_2)
  with run have "u_wait_for_record_propagation example_env ?n ?d []
      = Some (Inr (), [Dig ?n, Dig ?n, Sleep 60, Dig ?n, Sleep 60])"
    by simp
  with example_answers show ?thesis by (intro conjI)
qed





















lemma flaky_env_sel:
  "zone_list_res flaky_env = (\<lambda>k. if k = 0 then Unreachable else Response 200 ''OK'' (Some example_zones))"
  "zone_res flaky_env = (\<lambda>dns_zone_id. Response 200 ''OK'' (Some published_records))"
  "patch_res flaky_env = (\<lambda>dns_zone_id body. Response 200 ''OK'' (Some body))"
  "now flaky_env = example_now"
  "write_file flaky_env = (\<lambda>file_path. None)"
  "re_sub flaky_env = plain_re_sub"
  by (simp_all add: flaky_env_def remove_env_def example_env_def)

lemma flaky_attempts:
  "zone_attempt flaky_env ''www.example.com'' 0 []
     = (Inl (UnboundLocalError ''dns_zones_res''), [GetZoneList])"
  "zone_attempt flaky_env ''www.example.com'' (Suc 0) [GetZoneList]
     = (Inr (''example.com'', JInt 7), [GetZoneList, GetZoneList])"
  unfolding zone_attempt_def example_search
  by (simp_all add: u_get_dns_zone_id_def flaky_env_sel example_zone_lookup count_zone_list_def)

lemma flaky_zone_loop:
  "zone_loop flaky_env on_fail ''www.example.com'' 0 []
     = (Inr (''example.com'', JInt 7), [GetZoneList, GetZoneList])"
  by (subst zone_loop.simps, simp add: flaky_attempts,
      subst zone_loop.simps, simp add: flaky_attempts)

text \<open>
  Claim C7, at a failing input. The docstring of both entry points promises a
  \<^verbatim>\<open>PluginError\<close> when an error occurs communicating with the API. In the run below the
  first request for the zone list cannot be made: \<^verbatim>\<open>_get_dns_zone_id\<close> raises (its handler
  reads the response that was never assigned), the handler inside the loop of the zone
  resolution catches that like the miss of a zone name and goes on with the next suffix,
  the second pass finds the zone, and the remove workflow completes without any error.
\<close>

theorem provider_failure_recovered_silently:
  "zone_list_res flaky_env 0 = Unreachable
   \<and> zone_attempt flaky_env ''www.example.com'' 0 []
       = (Inl (UnboundLocalError ''dns_zones_res''), [GetZoneList])
   \<and> fst (delete_txt_record flaky_env ''www.example.com'' ''_acme-challenge.www.example.com''
            ''abc123'' []) = Inr ()"
  using delete_try_success[where env = flaky_env and domain = "''www.example.com''"
      and record_name = "''_acme-challenge.www.example.com''" and record_content = "''abc123''"
      and zone = "''example.com''" and zid = "JInt 7" and tz = "[GetZoneList, GetZoneList]"
      and fetched = published_records and new_name = "''_acme-challenge.www''"
      and h' = "stripped_published @ published_records" and c = 200 and tx = "''OK''"
      and cp = 200 and txp = "''OK''", OF flaky_zone_loop _ _ remove_env_strip]
  by (simp add: flaky_env_sel example_re_sub flaky_attempts)

end
